theory Spec2Isabelle
  imports Main "HOL-Library.Word" "HOL-Library.Sublist"
begin

section \<open>ROPfuscator core: data model\<close>

text \<open>
  A shallow embedding of \<^verbatim>\<open>src/src/ROPfuscatorCore.cpp\<close>: the lowered push
  instructions, \<^verbatim>\<open>insertROPChain\<close>, \<^verbatim>\<open>findLibcPath\<close> and the driver
  \<^verbatim>\<open>obfuscateFunction\<close>.

  Integers: \<^verbatim>\<open>uint32_t\<close> is \<open>32 word\<close>, \<^verbatim>\<open>uint64_t\<close> is \<open>64 word\<close>; \<^verbatim>\<open>int\<close> and
  \<^verbatim>\<open>int64_t\<close> values are \<open>int\<close>, and every conversion of one of them to
  \<^verbatim>\<open>uint32_t\<close> is written out as \<open>word_of_int\<close> (reduction modulo \<open>2 ^ 32\<close>).
\<close>

type_synonym u32 = "32 word"
type_synonym u64 = "64 word"

datatype FlagSaveMode = NOT_SAVED | SAVE_BEFORE_EXEC | SAVE_AFTER_EXEC

datatype ROPChainStatus =
    OK
  | ERR_NOT_IMPLEMENTED
  | ERR_NO_REGISTER_AVAILABLE
  | ERR_NO_GADGETS_AVAILABLE
  | ERR_UNSUPPORTED
  | ERR_UNSUPPORTED_STACKPOINTER

text \<open>A microgadget with the addresses it was found at (\<^verbatim>\<open>elem->microgadget->addresses\<close>).\<close>

record Microgadget =
  addresses :: "u64 list"

text \<open>
  \<^verbatim>\<open>ChainElem\<close>: the tag \<^verbatim>\<open>ChainElem::Type\<close> with the fields each case reads.
  A global value is named by a string, a basic block by its number in the layout of
  the function; \<open>ESP_OFFSET id v\<close> carries \<^verbatim>\<open>esp_id\<close> and \<^verbatim>\<open>value\<close>.
\<close>

datatype ChainElem =
    IMM_VALUE int
  | IMM_GLOBAL string int
  | GADGET Microgadget
  | JMP_BLOCK nat
  | JMP_FALLTHROUGH
  | ESP_PUSH int
  | ESP_OFFSET int int

record ROPChain =
  chain :: "ChainElem list"
  flagSave :: FlagSaveMode
  hasConditionalJump :: bool
  hasUnconditionalJump :: bool

text \<open>
  A \<^verbatim>\<open>Symbol\<close> of the analysed library. The symbols live in a store indexed by
  their address in memory (a \<^verbatim>\<open>const Symbol *\<close> is a \<open>nat\<close>), because
  \<^verbatim>\<open>insertROPChain\<close> writes \<^verbatim>\<open>sym->isUsed\<close> through the pointer.
\<close>

record Symbol =
  Label :: string
  Version :: string
  Address :: u64
  isUsed :: bool
  SymVerDirective :: string

type_synonym symtab = "nat \<Rightarrow> Symbol"

definition getSymverDirective :: "Symbol \<Rightarrow> string" where
  "getSymverDirective s = SymVerDirective s"

subsection \<open>Opaque constructs\<close>

datatype OpaqueStorage = EAX | STACK_0

text \<open>
  Modelled from the spec: \<^verbatim>\<open>OpaqueConstructFactory\<close> (OpaqueConstruct.h is not
  part of the sources). A construct is the record of the factory call that built it;
  the two constants are drawn at random, so they carry the position of the random
  engine at which they were created. What a construct computes and clobbers is
  given by the environment below.
\<close>

datatype OpaqueConstruct =
    OpaqueConstant32 nat OpaqueStorage string
  | BranchingOpaqueConstant32 nat OpaqueStorage nat string
  | ValueAdjustor OpaqueStorage "u32 list" "u32 list"
  | Compose OpaqueConstruct OpaqueConstruct

text \<open>
  The collaborators that are not part of the sources, as parameters: the random
  engine \<^verbatim>\<open>math::Random::engine()\<close> (the \<open>n\<close>-th draw is \<open>rnd n\<close>),
  \<^verbatim>\<open>BinaryAutopsy::getRandomSymbol\<close>, the outputs and clobbered registers of an
  opaque construct, and the register numbers of LLVM's X86 target.
\<close>

record Env =
  rnd :: "nat \<Rightarrow> nat"
  getRandomSymbol :: "nat \<Rightarrow> nat"
  findValue :: "OpaqueConstruct \<Rightarrow> OpaqueStorage \<Rightarrow> u32"
  findValues :: "OpaqueConstruct \<Rightarrow> OpaqueStorage \<Rightarrow> u32 list"
  getClobberedRegs :: "OpaqueConstruct \<Rightarrow> nat list"
  X86_EAX :: nat
  X86_ESP :: nat
  X86_EFLAGS :: nat

subsection \<open>Emitted assembly\<close>

text \<open>
  Modelled from the spec: \<^verbatim>\<open>X86AssembleHelper\<close> (not part of the sources). A label
  is a pointer to an assembler symbol, null in \<^verbatim>\<open>Label targetLabel = {nullptr}\<close>;
  \<^verbatim>\<open>as.label()\<close> makes a fresh temporary symbol, \<^verbatim>\<open>as.label(name)\<close> a named one.
  Each call that emits an instruction is one constructor of \<open>asm\<close>;
  \<open>OpaqueCode c off\<close> stands for the instructions of \<^verbatim>\<open>c->compile(as, off)\<close>.
\<close>

datatype MCSymbol = NamedSym string | TempSym nat

type_synonym Label = "MCSymbol option"

datatype Operand =
    Reg nat
  | Imm int
  | ImmGV string int
  | LabelOp Label
  | LabelOffset Label u32
  | Mem nat int

datatype asm =
    Lea Operand Operand
  | Push Operand
  | Pop Operand
  | Pushf
  | Popf
  | Add Operand Operand
  | Ret
  | PutLabel Label
  | InlineAsm string
  | OpaqueCode OpaqueConstruct int

section \<open>Lowered ROP chain\<close>

text \<open>
  \<^verbatim>\<open>ROPChainPushInst\<close> and its subclasses. The base class holds
  \<^verbatim>\<open>opaqueConstant\<close> (a null pointer is \<open>None\<close>); it is never set for
  \<^verbatim>\<open>PUSH_ESP\<close> and \<^verbatim>\<open>PUSH_EFLAGS\<close>. The anchor of \<^verbatim>\<open>PUSH_GADGET\<close> is a pointer
  into the symbol store.
\<close>

datatype ROPChainPushInst =
    PUSH_IMM (opaqueConstant: "OpaqueConstruct option") int
  | PUSH_GV (opaqueConstant: "OpaqueConstruct option") string int
  | PUSH_GADGET (opaqueConstant: "OpaqueConstruct option") nat u32
  | PUSH_LABEL (opaqueConstant: "OpaqueConstruct option") Label
  | PUSH_ESP
  | PUSH_EFLAGS
where
  "opaqueConstant PUSH_ESP = None"
| "opaqueConstant PUSH_EFLAGS = None"

text \<open>
  The \<^verbatim>\<open>compile\<close> methods. \<^verbatim>\<open>uint32_t diff = value - opaque\<close> subtracts in
  \<^verbatim>\<open>int64_t\<close> and converts to 32 bits; \<^verbatim>\<open>-value\<close> in \<^verbatim>\<open>PUSH_LABEL\<close> negates a
  \<^verbatim>\<open>uint32_t\<close>.
\<close>

fun compile :: "Env \<Rightarrow> symtab \<Rightarrow> ROPChainPushInst \<Rightarrow> asm list" where
  "compile env syms (PUSH_IMM opq val) =
     (case opq of
        Some c \<Rightarrow>
          (let opaque = findValue env c EAX;
               diff = (word_of_int (val - uint opaque) :: u32)
           in [OpaqueCode c 0,
               Add (Reg (X86_EAX env)) (Imm (uint diff)),
               Push (Reg (X86_EAX env))])
      | None \<Rightarrow> [Push (Imm val)])"
| "compile env syms (PUSH_GV opq gv off) =
     (case opq of
        Some c \<Rightarrow>
          (let opaque = findValue env c EAX;
               diff = (word_of_int (off - uint opaque) :: u32)
           in [OpaqueCode c 0,
               Add (Reg (X86_EAX env)) (ImmGV gv (uint diff)),
               Push (Reg (X86_EAX env))])
      | None \<Rightarrow> [Push (ImmGV gv off)])"
| "compile env syms (PUSH_GADGET opq anchor off) =
     (case opq of
        Some c \<Rightarrow>
          [OpaqueCode c 0,
           Add (Reg (X86_EAX env)) (LabelOp (Some (NamedSym (Label (syms anchor))))),
           Push (Reg (X86_EAX env))]
      | None \<Rightarrow> [Push (LabelOffset (Some (NamedSym (Label (syms anchor)))) off)])"
| "compile env syms (PUSH_LABEL opq l) =
     (case opq of
        Some c \<Rightarrow>
          (let val = findValue env c EAX
           in [OpaqueCode c 0,
               Add (Reg (X86_EAX env)) (LabelOffset l (- val)),
               Push (Reg (X86_EAX env))])
      | None \<Rightarrow> [Push (LabelOp l)])"
| "compile env syms PUSH_ESP = [Push (Reg (X86_ESP env))]"
| "compile env syms PUSH_EFLAGS = [Pushf]"

subsection \<open>What the emitted pushes leave on the stack\<close>

text \<open>
  The architectural effect of the instructions \<^verbatim>\<open>PUSH_IMM::compile\<close> emits, on the
  32-bit registers and the stack (top first): \<^verbatim>\<open>push imm32\<close> and \<^verbatim>\<open>add r32, imm32\<close>
  take their immediate modulo \<open>2 ^ 32\<close>, and 32-bit addition wraps. The code of an
  opaque constant leaves its declared output in EAX (spec: an opaque constant
  "computes, at runtime, a specific known constant into a register"). Any other
  instruction is outside this fragment (\<open>None\<close>).
\<close>

record machine =
  regs :: "nat \<Rightarrow> u32"
  stack :: "u32 list"

fun exec_asm :: "Env \<Rightarrow> asm \<Rightarrow> machine \<Rightarrow> machine option" where
  "exec_asm env (Push (Imm v)) m = Some (m\<lparr>stack := word_of_int v # stack m\<rparr>)"
| "exec_asm env (Push (Reg r)) m = Some (m\<lparr>stack := regs m r # stack m\<rparr>)"
| "exec_asm env (Add (Reg r) (Imm v)) m =
     Some (m\<lparr>regs := (regs m)(r := regs m r + word_of_int v)\<rparr>)"
| "exec_asm env (OpaqueCode c off) m =
     Some (m\<lparr>regs := (regs m)(X86_EAX env := findValue env c EAX)\<rparr>)"
| "exec_asm env _ m = None"

fun exec_all :: "Env \<Rightarrow> asm list \<Rightarrow> machine \<Rightarrow> machine option" where
  "exec_all env [] m = Some m"
| "exec_all env (i # rest) m =
     (case exec_asm env i m of None \<Rightarrow> None | Some m' \<Rightarrow> exec_all env rest m')"

section \<open>Locating the library\<close>

text \<open>
  The file system as \<^verbatim>\<open>findLibcPath\<close> sees it through
  \<^verbatim>\<open>llvm::sys::fs::directory_iterator\<close>: opening a directory and every increment
  either yield the next entry or set the error code, which ends the loop over that
  directory (\<^verbatim>\<open>!ec && dir_it != dir_end\<close>). A directory is the list of these
  steps; one that cannot be opened starts with \<open>IterError\<close>. An entry has its path
  and its status, \<open>None\<close> when the status cannot be read (\<^verbatim>\<open>st &&\<close> fails).
\<close>

datatype file_type =
    regular_file
  | directory_file
  | symlink_file
  | other_file

datatype directory_entry = directory_entry (path: string) (status: "file_type option")

datatype dir_step = Entry directory_entry | IterError

type_synonym filesystem = "string \<Rightarrow> dir_step list"

text \<open>
  \<^verbatim>\<open>llvm::sys::path::filename\<close> on the path of a directory entry (the directory, a
  separator, the name): the characters after the last separator.
\<close>

definition filename :: "string \<Rightarrow> string" where
  "filename p = rev (takeWhile (\<lambda>c. c \<noteq> CHR ''/'') (rev p))"

definition POSSIBLE_LIBC_FOLDERS :: "string list" where
  "POSSIBLE_LIBC_FOLDERS =
     [''/lib/i386-linux-gnu'',
      ''/usr/lib/i386-linux-gnu'',
      ''/lib32'',
      ''/usr/lib32'',
      ''/usr/local/lib'',
      ''/lib'',
      ''/usr/lib'']"

text \<open>The inner loop of \<^verbatim>\<open>findLibcPath\<close> over one directory; \<open>None\<close> when it ends without returning.\<close>

fun scan_dir :: "dir_step list \<Rightarrow> string option" where
  "scan_dir [] = None"
| "scan_dir (IterError # rest) = None"
| "scan_dir (Entry e # rest) =
     (if status e = Some regular_file \<and> filename (path e) = ''libc.so.6''
      then Some (path e)
      else scan_dir rest)"

text \<open>The outer loop over the folders, and the final \<^verbatim>\<open>return ""\<close>.\<close>

fun findLibcPath_loop :: "filesystem \<Rightarrow> string list \<Rightarrow> string" where
  "findLibcPath_loop fs [] = []"
| "findLibcPath_loop fs (dir # dirs) =
     (case scan_dir (fs dir) of
        Some libraryPath \<Rightarrow> libraryPath
      | None \<Rightarrow> findLibcPath_loop fs dirs)"

definition findLibcPath :: "filesystem \<Rightarrow> string" where
  "findLibcPath fs = findLibcPath_loop fs POSSIBLE_LIBC_FOLDERS"

text \<open>
  The first lines of \<^verbatim>\<open>obfuscateFunction\<close>: the library path is looked up when the
  Binary Autopsy instance does not exist yet and no path is configured.
\<close>

record GlobalConfig =
  libraryPath :: string
  searchSegmentForGadget :: bool
  avoidMultiversionSymbol :: bool
  useChainLabel :: bool
  printInstrStat :: bool

definition resolveLibraryPath :: "filesystem \<Rightarrow> bool \<Rightarrow> GlobalConfig \<Rightarrow> GlobalConfig" where
  "resolveLibraryPath fs BA_is_null cfg =
     (if BA_is_null
      then (if libraryPath cfg = [] then cfg\<lparr>libraryPath := findLibcPath fs\<rparr> else cfg)
      else cfg)"

text \<open>
  The claim's words, for comparison with the code: the entries a directory yields
  before its first error, and the first regular file named \<^verbatim>\<open>libc.so.6\<close> among the
  entries of the folders, taken folder by folder in the order of the list.
\<close>

fun entries_read :: "dir_step list \<Rightarrow> directory_entry list" where
  "entries_read [] = []"
| "entries_read (IterError # rest) = []"
| "entries_read (Entry e # rest) = e # entries_read rest"

definition is_libc :: "directory_entry \<Rightarrow> bool" where
  "is_libc e = (status e = Some regular_file \<and> filename (path e) = ''libc.so.6'')"

definition first_libc_spec :: "filesystem \<Rightarrow> string list \<Rightarrow> string" where
  "first_libc_spec fs dirs =
     (case List.find is_libc (concat (map (\<lambda>d. entries_read (fs d)) dirs)) of
        Some e \<Rightarrow> path e
      | None \<Rightarrow> [])"

section \<open>Chain insertion\<close>

text \<open>
  Modelled from the spec: \<^verbatim>\<open>ObfuscationParameter\<close> with the fields
  \<^verbatim>\<open>insertROPChain\<close> reads (the header of this version is not part of the sources;
  \<^verbatim>\<open>obfuscateImmediateOperand\<close> and \<^verbatim>\<open>obfuscateBranchTarget\<close> are the spec's
  \<^verbatim>\<open>obfuscate_immediate_operand\<close> and \<^verbatim>\<open>obfuscate_branch_target\<close>).
\<close>

record ObfuscationParameter =
  obfuscationEnabled :: bool
  opaquePredicateEnabled :: bool
  obfuscateImmediateOperand :: bool
  obfuscateBranchTarget :: bool
  opaqueBranchDivergenceEnabled :: bool
  opaqueBranchDivergenceMaxBranches :: u32
  opaqueConstantAlgorithm :: string
  opaqueBranchDivergenceAlgorithm :: string

text \<open>
  The ways \<^verbatim>\<open>insertROPChain\<close> and \<^verbatim>\<open>obfuscateFunction\<close> stop without returning:
  the two \<^verbatim>\<open>exit(1)\<close>, the \<^verbatim>\<open>assert\<close>, and the reads and the division whose
  behaviour C++ leaves undefined.
\<close>

datatype fatal =
    ESP_OFFSET_without_ESP_PUSH
  | Only_32bit_supported
  | Assertion_failed
  | Offsets_empty
  | Null_prevMI
  | Division_by_zero

subsection \<open>Labels\<close>

function string_of_nat :: "nat \<Rightarrow> string" where
  "string_of_nat n =
     (if n < 10 then [''0123456789'' ! n]
      else string_of_nat (n div 10) @ [''0123456789'' ! (n mod 10)])"
  by pat_completeness auto
termination
  by (relation "measure id") auto

definition string_of_int :: "int \<Rightarrow> string" where
  "string_of_int i = (if i < 0 then CHR ''-'' # string_of_nat (nat (- i)) else string_of_nat (nat i))"

text \<open>
  \<^verbatim>\<open>generateChainLabels\<close>: the resume label is built from the chain label before
  \<^verbatim>\<open>$\<close> is replaced in the chain label.
\<close>

definition generateChainLabels :: "string \<Rightarrow> int \<Rightarrow> string \<times> string" where
  "generateChainLabels funcName chainID =
     (let chainLabel = funcName @ ''_chain_'' @ string_of_int chainID;
          resumeLabel = ''resume_'' @ chainLabel
      in (map (\<lambda>c. if c = CHR ''$'' then CHR ''_'' else c) chainLabel, resumeLabel))"

subsection \<open>Sampling\<close>

text \<open>
  \<^verbatim>\<open>std::sample(first, last, out, n, g)\<close> of the C++ library on a forward range:
  selection sampling. Each element is taken when a draw below the number of
  elements left falls below the number still to take, so \<open>min n (length xs)\<close>
  elements are taken, in their order in \<open>xs\<close>. The draws are those of the engine from
  position \<open>t\<close> on; the result comes with the position after the last draw.
\<close>

fun std_sample :: "(nat \<Rightarrow> nat) \<Rightarrow> nat \<Rightarrow> 'a list \<Rightarrow> nat \<Rightarrow> 'a list \<times> nat" where
  "std_sample g t [] n = ([], t)"
| "std_sample g t (x # xs) n =
     (if n = 0 then ([], t)
      else if g t mod Suc (length xs) < n
      then (let (ys, t') = std_sample g (Suc t) xs (n - 1) in (x # ys, t'))
      else std_sample g (Suc t) xs n)"

subsection \<open>Lowering the chain elements\<close>

text \<open>
  The local variables of \<^verbatim>\<open>insertROPChain\<close> that the loop over the chain updates,
  with what it changes outside: the successors of \<^verbatim>\<open>MBB\<close> (block numbers, in the
  order of \<^verbatim>\<open>succ_begin() .. succ_end()\<close>), the labels put at the start of blocks
  by \<^verbatim>\<open>putLabelInMBB\<close> (in call order), the symbol store, the position of the
  random engine and the number of temporary assembler symbols made so far.
\<close>

record lowering =
  pushchain :: "ROPChainPushInst list"
  espOffsetMap :: "int \<rightharpoonup> int"
  espoffset :: int
  versionedSymbols :: "nat list"
  resumeLabelRequired :: bool
  successors :: "nat list"
  blockLabels :: "(nat \<times> Label) list"
  symbols :: symtab
  tick :: nat
  nextTemp :: nat

text \<open>
  \<^verbatim>\<open>MachineBasicBlock::isLayoutSuccessor\<close> (LLVM): the block that follows in the
  layout of the function.
\<close>

definition isLayoutSuccessor :: "nat \<Rightarrow> nat \<Rightarrow> bool" where
  "isLayoutSuccessor MBB other = (other = Suc MBB)"

definition emplace_back :: "ROPChainPushInst \<Rightarrow> lowering \<Rightarrow> lowering" where
  "emplace_back push st = st\<lparr>pushchain := pushchain st @ [push]\<rparr>"

text \<open>
  \<^verbatim>\<open>OpaqueConstructFactory::createOpaqueConstant32(EAX, algorithm)\<close> attached when
  the condition of the \<^verbatim>\<open>if\<close> holds; the engine moves on when a constant is made.
\<close>

definition attachOpaqueConstant32 ::
  "bool \<Rightarrow> string \<Rightarrow> lowering \<Rightarrow> OpaqueConstruct option \<times> lowering" where
  "attachOpaqueConstant32 cond algorithm st =
     (if cond
      then (Some (OpaqueConstant32 (tick st) EAX algorithm), st\<lparr>tick := Suc (tick st)\<rparr>)
      else (None, st))"

text \<open>
  The \<^verbatim>\<open>GADGET\<close> case up to the offsets: the anchor, the number of branches, the
  sampled addresses (stored as \<^verbatim>\<open>uint32_t\<close>) and \<^verbatim>\<open>offset -= sym->Address\<close>.
\<close>

definition num_branches_of :: "ObfuscationParameter \<Rightarrow> u64 list \<Rightarrow> nat" where
  "num_branches_of param addrs =
     (if opaqueBranchDivergenceEnabled param
      then min (unat (opaqueBranchDivergenceMaxBranches param)) (length addrs)
      else 1)"

definition relative_offset :: "u64 \<Rightarrow> u64 \<Rightarrow> u32" where
  "relative_offset anchor_address a = ucast ((ucast (ucast a :: u32) :: u64) - anchor_address)"

definition sample_addresses :: "Env \<Rightarrow> ObfuscationParameter \<Rightarrow> Microgadget \<Rightarrow> nat \<Rightarrow> u64 list \<times> nat" where
  "sample_addresses env param g t =
     std_sample (rnd env) t (addresses g) (num_branches_of param (addresses g))"

definition lower_GADGET :: "Env \<Rightarrow> ObfuscationParameter \<Rightarrow> Microgadget \<Rightarrow> lowering \<Rightarrow> fatal + lowering" where
  "lower_GADGET env param g st =
     (let s = getRandomSymbol env (tick st);
          num_branches = num_branches_of param (addresses g);
          (sampled, t) = sample_addresses env param g (Suc (tick st));
          offsets = map (relative_offset (Address (symbols st s))) sampled;
          st1 = st\<lparr>tick := t\<rparr>;
          st2 = (if \<not> isUsed (symbols st1 s) \<and> Version (symbols st1 s) \<noteq> ''Base''
                 then st1\<lparr>versionedSymbols := versionedSymbols st1 @ [s],
                          symbols := (symbols st1)(s := (symbols st1 s)\<lparr>isUsed := True\<rparr>)\<rparr>
                 else st1)
      in case offsets of
           [] \<Rightarrow> Inl Offsets_empty
         | offset0 # _ \<Rightarrow>
             (if opaquePredicateEnabled param
              then
                (let opaqueConst =
                       (if num_branches > 1
                        then BranchingOpaqueConstant32 (tick st2) EAX (length offsets)
                               (opaqueBranchDivergenceAlgorithm param)
                        else OpaqueConstant32 (tick st2) EAX (opaqueConstantAlgorithm param));
                     opaqueValues = findValues env opaqueConst EAX;
                     adjuster = ValueAdjustor EAX opaqueValues offsets
                 in Inr (emplace_back (PUSH_GADGET (Some (Compose adjuster opaqueConst)) s offset0)
                           (st2\<lparr>tick := Suc (tick st2)\<rparr>)))
              else Inr (emplace_back (PUSH_GADGET None s offset0) st2)))"

text \<open>
  The \<^verbatim>\<open>JMP_FALLTHROUGH\<close> case. The search of the successors stops at the first
  layout successor; \<^verbatim>\<open>targetLabel.symbol\<close> is tested as the code tests it.
\<close>

definition lower_JMP_FALLTHROUGH ::
  "ObfuscationParameter \<Rightarrow> nat \<Rightarrow> bool \<Rightarrow> Label \<Rightarrow> lowering \<Rightarrow> lowering" where
  "lower_JMP_FALLTHROUGH param MBB isLastInstrInBlock asResumeLabel st =
     (let (targetLabel, st1) =
            (if isLastInstrInBlock
             then (case List.find (isLayoutSuccessor MBB) (successors st) of
                     Some targetMBB \<Rightarrow>
                       (asResumeLabel,
                        st\<lparr>blockLabels := blockLabels st @ [(targetMBB, asResumeLabel)]\<rparr>)
                   | None \<Rightarrow> (None, st))
             else (asResumeLabel, st\<lparr>resumeLabelRequired := True\<rparr>))
      in if targetLabel \<noteq> None
         then (let (opq, st2) =
                     attachOpaqueConstant32
                       (opaquePredicateEnabled param \<and> obfuscateBranchTarget param)
                       (opaqueConstantAlgorithm param) st1
               in emplace_back (PUSH_LABEL opq targetLabel) st2)
         else emplace_back (PUSH_IMM None 0) st1)"

text \<open>
  \<^verbatim>\<open>elem->value - it->second\<close> in the \<^verbatim>\<open>ESP_OFFSET\<close> case: \<^verbatim>\<open>value\<close> is an
  \<^verbatim>\<open>int64_t\<close>, the recorded cursor an \<^verbatim>\<open>int\<close> that is converted to it, and the
  difference is one of \<^verbatim>\<open>int64_t\<close>: 64 bits, two's complement.
\<close>

definition int64_sub :: "int \<Rightarrow> int \<Rightarrow> int" where
  "int64_sub a b = sint (word_of_int a - word_of_int b :: 64 word)"

text \<open>The body of the \<^verbatim>\<open>switch\<close>, one equation per case.\<close>

fun lower_elem ::
  "Env \<Rightarrow> ObfuscationParameter \<Rightarrow> nat \<Rightarrow> bool \<Rightarrow> Label \<Rightarrow> ChainElem \<Rightarrow> lowering \<Rightarrow> fatal + lowering" where
  "lower_elem env param MBB isLast asResumeLabel (IMM_VALUE v) st =
     (let (opq, st1) =
            attachOpaqueConstant32
              (opaquePredicateEnabled param \<and> obfuscateImmediateOperand param)
              (opaqueConstantAlgorithm param) st
      in Inr (emplace_back (PUSH_IMM opq v) st1))"
| "lower_elem env param MBB isLast asResumeLabel (IMM_GLOBAL gv v) st =
     (let (opq, st1) =
            attachOpaqueConstant32
              (opaquePredicateEnabled param \<and> obfuscateImmediateOperand param)
              (opaqueConstantAlgorithm param) st
      in Inr (emplace_back (PUSH_GV opq gv v) st1))"
| "lower_elem env param MBB isLast asResumeLabel (GADGET g) st = lower_GADGET env param g st"
| "lower_elem env param MBB isLast asResumeLabel (JMP_BLOCK targetMBB) st =
     (let targetLabel = Some (TempSym (nextTemp st));
          st1 = st\<lparr>successors := successors st @ [targetMBB],
                   nextTemp := Suc (nextTemp st),
                   blockLabels := blockLabels st @ [(targetMBB, targetLabel)]\<rparr>;
          (opq, st2) =
            attachOpaqueConstant32
              (opaquePredicateEnabled param \<and> obfuscateBranchTarget param)
              (opaqueConstantAlgorithm param) st1
      in Inr (emplace_back (PUSH_LABEL opq targetLabel) st2))"
| "lower_elem env param MBB isLast asResumeLabel JMP_FALLTHROUGH st =
     Inr (lower_JMP_FALLTHROUGH param MBB isLast asResumeLabel st)"
| "lower_elem env param MBB isLast asResumeLabel (ESP_PUSH esp_id) st =
     Inr ((emplace_back PUSH_ESP st)\<lparr>espOffsetMap := (espOffsetMap st)(esp_id \<mapsto> espoffset st)\<rparr>)"
| "lower_elem env param MBB isLast asResumeLabel (ESP_OFFSET esp_id v) st =
     (case espOffsetMap st esp_id of
        None \<Rightarrow> Inl ESP_OFFSET_without_ESP_PUSH
      | Some recorded \<Rightarrow> Inr (emplace_back (PUSH_IMM None (int64_sub v recorded)) st))"

text \<open>One iteration of the loop (\<^verbatim>\<open>espoffset -= 4\<close> follows the switch), and the loop.\<close>

definition lower_step ::
  "Env \<Rightarrow> ObfuscationParameter \<Rightarrow> nat \<Rightarrow> bool \<Rightarrow> Label \<Rightarrow> ChainElem \<Rightarrow> lowering \<Rightarrow> fatal + lowering" where
  "lower_step env param MBB isLast asResumeLabel elem st =
     (case lower_elem env param MBB isLast asResumeLabel elem st of
        Inl err \<Rightarrow> Inl err
      | Inr st1 \<Rightarrow> Inr (st1\<lparr>espoffset := espoffset st1 - 4\<rparr>))"

fun lower_all ::
  "Env \<Rightarrow> ObfuscationParameter \<Rightarrow> nat \<Rightarrow> bool \<Rightarrow> Label \<Rightarrow> ChainElem list \<Rightarrow> lowering \<Rightarrow> fatal + lowering" where
  "lower_all env param MBB isLast asResumeLabel [] st = Inr st"
| "lower_all env param MBB isLast asResumeLabel (elem # elems) st =
     (case lower_step env param MBB isLast asResumeLabel elem st of
        Inl err \<Rightarrow> Inl err
      | Inr st1 \<Rightarrow> lower_all env param MBB isLast asResumeLabel elems st1)"

subsection \<open>Saved registers, prologue and epilogue\<close>

text \<open>
  \<^verbatim>\<open>std::set<unsigned int>\<close> as the list of its elements in increasing order,
  which is the order the set is iterated in.
\<close>

definition set_insert :: "nat \<Rightarrow> nat list \<Rightarrow> nat list" where
  "set_insert x xs = (if x \<in> set xs then xs else insort x xs)"

definition set_erase :: "nat \<Rightarrow> nat list \<Rightarrow> nat list" where
  "set_erase x xs = removeAll x xs"

fun insertClobbered :: "Env \<Rightarrow> ROPChainPushInst list \<Rightarrow> nat list \<Rightarrow> nat list" where
  "insertClobbered env [] savedRegs = savedRegs"
| "insertClobbered env (push # rest) savedRegs =
     (case opaqueConstant push of
        Some op \<Rightarrow> insertClobbered env rest (fold set_insert (getClobberedRegs env op) savedRegs)
      | None \<Rightarrow> insertClobbered env rest savedRegs)"

definition computeSavedRegs ::
  "Env \<Rightarrow> ObfuscationParameter \<Rightarrow> FlagSaveMode \<Rightarrow> ROPChainPushInst list \<Rightarrow> nat list" where
  "computeSavedRegs env param mode pushes =
     (let savedRegs = (if opaquePredicateEnabled param then insertClobbered env pushes [] else [])
      in if mode = SAVE_BEFORE_EXEC
         then set_insert (X86_EFLAGS env) savedRegs
         else set_erase (X86_EFLAGS env) savedRegs)"

text \<open>The \<^verbatim>\<open>.symver\<close> directives, joined by the loop over \<^verbatim>\<open>versionedSymbols\<close>.\<close>

fun join_directives :: "string \<Rightarrow> Symbol list \<Rightarrow> string" where
  "join_directives ss [] = ss"
| "join_directives ss (s # rest) =
     join_directives ((if ss \<noteq> [] then ss @ [CHR 0x0A] else ss) @ getSymverDirective s) rest"

definition emit_symver :: "symtab \<Rightarrow> nat list \<Rightarrow> asm list" where
  "emit_symver syms versioned =
     (if versioned \<noteq> [] then [InlineAsm (join_directives [] (map syms versioned))] else [])"

definition save_reg :: "Env \<Rightarrow> nat \<Rightarrow> asm" where
  "save_reg env r = (if r = X86_EFLAGS env then Pushf else Push (Reg r))"

definition restore_reg :: "Env \<Rightarrow> nat \<Rightarrow> asm" where
  "restore_reg env r = (if r = X86_EFLAGS env then Popf else Pop (Reg r))"

definition emit_save :: "Env \<Rightarrow> nat list \<Rightarrow> int \<Rightarrow> asm list" where
  "emit_save env savedRegs off =
     (if savedRegs \<noteq> []
      then [Lea (Reg (X86_ESP env)) (Mem (X86_ESP env) off)]
           @ map (save_reg env) savedRegs
           @ [Lea (Reg (X86_ESP env)) (Mem (X86_ESP env) (4 * int (length savedRegs) - off))]
      else [])"

definition emit_restore :: "Env \<Rightarrow> nat list \<Rightarrow> asm list" where
  "emit_restore env savedRegs =
     (if savedRegs \<noteq> []
      then [Lea (Reg (X86_ESP env)) (Mem (X86_ESP env) (- 4 * int (length savedRegs)))]
           @ map (restore_reg env) (rev savedRegs)
      else [])"

subsection \<open>insertROPChain\<close>

text \<open>
  What a call leaves behind: the instructions inserted before \<^verbatim>\<open>MI\<close>, in order,
  the registers saved around the chain, and the final values of the variables of
  the lowering loop.
\<close>

record inserted =
  code :: "asm list"
  savedRegs :: "nat list"
  lowered :: lowering

text \<open>The two labels, by name when \<^verbatim>\<open>useChainLabel\<close> is set, fresh otherwise.\<close>

definition chain_labels :: "GlobalConfig \<Rightarrow> string \<Rightarrow> int \<Rightarrow> nat \<Rightarrow> Label \<times> Label \<times> nat" where
  "chain_labels cfg funcName chainID temp =
     (if useChainLabel cfg
      then (let (chainLabel, resumeLabel) = generateChainLabels funcName chainID
            in (Some (NamedSym chainLabel), Some (NamedSym resumeLabel), temp))
      else (Some (TempSym temp), Some (TempSym (Suc temp)), Suc (Suc temp)))"

text \<open>
  \<^verbatim>\<open>chain.emplace_back(ChainElem::createJmpFallthrough())\<close> unless the chain has a
  jump.
\<close>

definition with_fallthrough :: "ROPChain \<Rightarrow> ChainElem list" where
  "with_fallthrough c =
     (if hasUnconditionalJump c \<or> hasConditionalJump c then chain c
      else chain c @ [JMP_FALLTHROUGH])"

text \<open>
  The variables of \<^verbatim>\<open>insertROPChain\<close> before the loop over the chain: with
  \<^verbatim>\<open>SAVE_AFTER_EXEC\<close> the push of the flags comes first and the stack cursor starts
  at \<open>-4\<close>.
\<close>

definition initial_lowering :: "ROPChain \<Rightarrow> nat list \<Rightarrow> symtab \<Rightarrow> nat \<Rightarrow> nat \<Rightarrow> lowering" where
  "initial_lowering c succs syms t temp =
     \<lparr>pushchain = (if flagSave c = SAVE_AFTER_EXEC then [PUSH_EFLAGS] else []),
      espOffsetMap = Map.empty,
      espoffset = (if flagSave c = SAVE_AFTER_EXEC then - 4 else 0),
      versionedSymbols = [],
      resumeLabelRequired = False,
      successors = succs,
      blockLabels = [],
      symbols = syms,
      tick = t,
      nextTemp = temp\<rparr>"

text \<open>
  \<^verbatim>\<open>bool isLastInstrInBlock = MI.getNextNode() == nullptr\<close>, cleared for
  \<^verbatim>\<open>SAVE_AFTER_EXEC\<close> ("since we will emit popf instruction later").
\<close>

definition isLastInstrInBlock :: "ROPChain \<Rightarrow> bool \<Rightarrow> bool" where
  "isLastInstrInBlock c MI_has_next = (if flagSave c = SAVE_AFTER_EXEC then False else \<not> MI_has_next)"

text \<open>
  \<^verbatim>\<open>insertROPChain(chain, MBB, MI, chainID, param)\<close>. Of the block it takes the
  name of the function, the number of the block and its successors; of \<^verbatim>\<open>MI\<close>
  whether it has a next node; of the object and its collaborators the symbol store,
  the position of the random engine and the count of temporary symbols.
\<close>

definition insertROPChain ::
  "Env \<Rightarrow> GlobalConfig \<Rightarrow> ObfuscationParameter \<Rightarrow> string \<Rightarrow> nat \<Rightarrow> nat list \<Rightarrow> bool \<Rightarrow>
   symtab \<Rightarrow> nat \<Rightarrow> nat \<Rightarrow> ROPChain \<Rightarrow> int \<Rightarrow> fatal + inserted" where
  "insertROPChain env cfg param funcName MBB succs MI_has_next syms t temp c chainID =
     (let (asChainLabel, asResumeLabel, temp1) = chain_labels cfg funcName chainID temp
      in if flagSave c = SAVE_AFTER_EXEC \<and> hasUnconditionalJump c \<and> hasConditionalJump c
         then Inl Assertion_failed
         else
           (case lower_all env param MBB (isLastInstrInBlock c MI_has_next) asResumeLabel
                   (rev (with_fallthrough c)) (initial_lowering c succs syms t temp1) of
              Inl err \<Rightarrow> Inl err
            | Inr st \<Rightarrow>
                (let regs = computeSavedRegs env param (flagSave c) (pushchain st)
                 in Inr \<lparr>code =
                           emit_symver (symbols st) (versionedSymbols st)
                           @ emit_save env regs (espoffset st)
                           @ [PutLabel asChainLabel]
                           @ concat (map (compile env (symbols st)) (pushchain st))
                           @ emit_restore env regs
                           @ [Ret]
                           @ (if resumeLabelRequired st then [PutLabel asResumeLabel] else [])
                           @ (if flagSave c = SAVE_AFTER_EXEC then [Popf] else []),
                         savedRegs = regs,
                         lowered = st\<rparr>)))"

text \<open>
  The claim's words, for comparison with the code: the registers an opaque constant
  attached to a push clobbers, the registers a piece of code pushes (\<^verbatim>\<open>pushf\<close>
  pushes the flags), and the registers it pops.
\<close>

definition attached_clobbers :: "Env \<Rightarrow> ROPChainPushInst \<Rightarrow> nat set" where
  "attached_clobbers env push =
     (case opaqueConstant push of Some op \<Rightarrow> set (getClobberedRegs env op) | None \<Rightarrow> {})"

definition regs_saved :: "Env \<Rightarrow> asm list \<Rightarrow> nat list" where
  "regs_saved env instrs =
     concat (map (\<lambda>i. case i of Push (Reg r) \<Rightarrow> [r] | Pushf \<Rightarrow> [X86_EFLAGS env] | _ \<Rightarrow> []) instrs)"

definition regs_restored :: "Env \<Rightarrow> asm list \<Rightarrow> nat list" where
  "regs_restored env instrs =
     concat (map (\<lambda>i. case i of Pop (Reg r) \<Rightarrow> [r] | Popf \<Rightarrow> [X86_EFLAGS env] | _ \<Rightarrow> []) instrs)"

text \<open>
  The claim's words, for comparison with the code: the symbol store in which the
  symbols of a list have their \<^verbatim>\<open>isUsed\<close> flag set and everything else is as
  before.
\<close>

definition mark_used :: "symtab \<Rightarrow> nat list \<Rightarrow> symtab" where
  "mark_used syms new = (\<lambda>s. if s \<in> set new then (syms s)\<lparr>isUsed := True\<rparr> else syms s)"

section \<open>The function driver\<close>

subsection \<open>Chains as the driver uses them\<close>

text \<open>
  Modelled from the spec: the methods of \<^verbatim>\<open>ROPChain\<close> that the driver calls
  (ROPEngine.h is not part of the sources). Spec 4.1: "two chains are mergeable if
  and only if neither contains a jump. Merging concatenates element lists and ORs
  the flag-save modes using the lattice NotSaved < SaveBeforeExec < SaveAfterExec".
  A chain is valid when it has an element ("flush the current merged chain (if
  any)"); \<^verbatim>\<open>clear\<close> leaves the chain a default-constructed one.
\<close>

fun mode_rank :: "FlagSaveMode \<Rightarrow> nat" where
  "mode_rank NOT_SAVED = 0"
| "mode_rank SAVE_BEFORE_EXEC = 1"
| "mode_rank SAVE_AFTER_EXEC = 2"

definition mode_join :: "FlagSaveMode \<Rightarrow> FlagSaveMode \<Rightarrow> FlagSaveMode" where
  "mode_join a b = (if mode_rank a \<le> mode_rank b then b else a)"

definition canMerge :: "ROPChain \<Rightarrow> ROPChain \<Rightarrow> bool" where
  "canMerge a b =
     (\<not> (hasConditionalJump a \<or> hasUnconditionalJump a)
      \<and> \<not> (hasConditionalJump b \<or> hasUnconditionalJump b))"

definition merge :: "ROPChain \<Rightarrow> ROPChain \<Rightarrow> ROPChain" where
  "merge a b =
     \<lparr>chain = chain a @ chain b,
      flagSave = mode_join (flagSave a) (flagSave b),
      hasConditionalJump = (hasConditionalJump a \<or> hasConditionalJump b),
      hasUnconditionalJump = (hasUnconditionalJump a \<or> hasUnconditionalJump b)\<rparr>"

definition valid :: "ROPChain \<Rightarrow> bool" where
  "valid c = (chain c \<noteq> [])"

definition clear :: ROPChain where
  "clear = \<lparr>chain = [], flagSave = NOT_SAVED, hasConditionalJump = False,
            hasUnconditionalJump = False\<rparr>"

subsection \<open>Machine functions\<close>

text \<open>
  An instruction of a block is one of the function's own (its opcode, whether it is a
  debug instruction, and a number standing for its operands) or one that the
  assembler helper has inserted, which is never a debug instruction. A block has its
  instructions and its successors; a function its name and its blocks in layout
  order, a block being named by its position.
\<close>

datatype MachineInstr = X86Instr nat bool nat | Lowered asm

fun isDebugInstr :: "MachineInstr \<Rightarrow> bool" where
  "isDebugInstr (X86Instr opcode dbg operands) = dbg"
| "isDebugInstr (Lowered a) = False"

record MachineBasicBlock =
  instrs :: "MachineInstr list"
  Successors :: "nat list"

record MachineFunction =
  getName :: string
  basicBlocks :: "MachineBasicBlock list"

text \<open>
  The collaborators of the driver that are not part of the sources, as parameters:
  the ROP engine (it gets the instruction, the scratch registers, the flag, the
  symbols and the position of the random engine, and returns the status, the chain
  and the new position), the liveness analysis of a block (scratch registers by
  position), \<^verbatim>\<open>isSafeToClobberEFLAGS\<close> (the block and a position in it), the
  construction of the Binary Autopsy instance, the target, the opcodes of inserted
  instructions, the file system, and whether debug output of type
  \<^verbatim>\<open>OBF_STATS\<close> is switched on.
\<close>

record Host =
  ropify :: "MachineInstr \<Rightarrow> nat list \<Rightarrow> bool \<Rightarrow> symtab \<Rightarrow> nat \<Rightarrow> ROPChainStatus \<times> ROPChain \<times> nat"
  performLivenessAnalysis :: "MachineInstr list \<Rightarrow> nat \<Rightarrow> nat list"
  isSafeToClobberEFLAGS :: "MachineInstr list \<Rightarrow> nat \<Rightarrow> bool"
  getInstance :: "GlobalConfig \<Rightarrow> symtab"
  is64Bit :: bool
  loweredOpcode :: "asm \<Rightarrow> nat"
  files :: filesystem
  debug_OBF_STATS :: bool

fun getOpcode :: "Host \<Rightarrow> MachineInstr \<Rightarrow> nat" where
  "getOpcode host (X86Instr opcode dbg operands) = opcode"
| "getOpcode host (Lowered a) = loweredOpcode host a"

text \<open>
  Modelled from the spec: the macro \<^verbatim>\<open>ROPFUSCATOR_INSTRUCTION_STAT\<close> is defined (the
  header that defines it is not part of the sources; spec 4.1, step 3: "Increment
  the per-opcode status counter").
\<close>

definition ROPFUSCATOR_INSTRUCTION_STAT :: bool where
  "ROPFUSCATOR_INSTRUCTION_STAT = True"

text \<open>\<^verbatim>\<open>instr_stat[MI.getOpcode()][status]++\<close>.\<close>

definition count_status ::
  "(nat \<Rightarrow> ROPChainStatus \<Rightarrow> int) \<Rightarrow> nat \<Rightarrow> ROPChainStatus \<Rightarrow> (nat \<Rightarrow> ROPChainStatus \<Rightarrow> int)" where
  "count_status stat opcode outcome =
     stat(opcode := (stat opcode)(outcome := stat opcode outcome + 1))"

subsection \<open>The state of the loops\<close>

text \<open>
  The variables of \<^verbatim>\<open>obfuscateFunction\<close> and what it reaches through its object.
  The block under iteration is held in three parts: the instructions before
  \<^verbatim>\<open>prevMI\<close>, each with a mark that tells whether it is in \<^verbatim>\<open>instrToDelete\<close>;
  \<^verbatim>\<open>prevMI\<close> itself, which is in \<^verbatim>\<open>instrToDelete\<close> whenever it is set; and the
  instructions visited since. Instructions not yet visited are the argument of the
  loop. The other blocks, and the successors of every block, are in \<open>MF\<close>.
\<close>

record driver =
  MF :: MachineFunction
  before :: "(MachineInstr \<times> bool) list"
  prevMI :: "MachineInstr option"
  behind :: "MachineInstr list"
  chain0 :: ROPChain
  processed :: int
  obfuscated :: int
  chainID :: int
  instr_stat :: "nat \<Rightarrow> ROPChainStatus \<Rightarrow> int"
  BA :: symtab
  engine :: nat
  temps :: nat

definition block_view :: "driver \<Rightarrow> MachineInstr list" where
  "block_view s =
     map fst (before s) @ (case prevMI s of None \<Rightarrow> [] | Some pm \<Rightarrow> [pm]) @ behind s"

text \<open>\<^verbatim>\<open>putLabelInMBB\<close>: the label becomes the first instruction of the block.\<close>

definition putLabelInMBB :: "nat \<Rightarrow> driver \<Rightarrow> nat \<times> Label \<Rightarrow> driver" where
  "putLabelInMBB MBB s target_label =
     (case target_label of (target, l) \<Rightarrow>
        if target = MBB
        then (if prevMI s = None
              then s\<lparr>behind := Lowered (PutLabel l) # behind s\<rparr>
              else s\<lparr>before := (Lowered (PutLabel l), False) # before s\<rparr>)
        else s\<lparr>MF := (MF s)\<lparr>basicBlocks :=
               (basicBlocks (MF s))[target :=
                  (basicBlocks (MF s) ! target)\<lparr>instrs :=
                     Lowered (PutLabel l) # instrs (basicBlocks (MF s) ! target)\<rparr>]\<rparr>\<rparr>)"

text \<open>
  The effect of a returned \<^verbatim>\<open>insertROPChain(chain0, MBB, *prevMI, chainID++, param)\<close>
  on the state: the code goes right before \<^verbatim>\<open>prevMI\<close>, the block gets the
  successors the lowering has added, the labels go to the start of their blocks.
\<close>

definition put_labels :: "nat \<Rightarrow> (nat \<times> Label) list \<Rightarrow> driver \<Rightarrow> driver" where
  "put_labels MBB ls s = fold (\<lambda>target_label s'. putLabelInMBB MBB s' target_label) ls s"

definition inserted_at_prevMI :: "nat \<Rightarrow> inserted \<Rightarrow> driver \<Rightarrow> driver" where
  "inserted_at_prevMI MBB r s =
     put_labels MBB (blockLabels (lowered r))
       (s\<lparr>before := before s @ map (\<lambda>a. (Lowered a, False)) (code r),
          MF := (MF s)\<lparr>basicBlocks :=
                 (basicBlocks (MF s))[MBB :=
                    (basicBlocks (MF s) ! MBB)\<lparr>Successors := successors (lowered r)\<rparr>]\<rparr>,
          BA := symbols (lowered r),
          engine := tick (lowered r),
          temps := nextTemp (lowered r),
          chainID := chainID s + 1\<rparr>)"

text \<open>
  \<^verbatim>\<open>if (chain0.valid()) { insertROPChain(chain0, MBB, *prevMI, chainID++, param);
  chain0.clear(); }\<close>, which the driver has in three places.
\<close>

definition flush ::
  "Env \<Rightarrow> GlobalConfig \<Rightarrow> ObfuscationParameter \<Rightarrow> nat \<Rightarrow> bool \<Rightarrow> driver \<Rightarrow> fatal + driver" where
  "flush env cfg param MBB MI_has_next s =
     (if valid (chain0 s)
      then (case prevMI s of
              None \<Rightarrow> Inl Null_prevMI
            | Some pm \<Rightarrow>
                (case insertROPChain env cfg param (getName (MF s)) MBB
                        (Successors (basicBlocks (MF s) ! MBB)) MI_has_next
                        (BA s) (engine s) (temps s) (chain0 s) (chainID s) of
                   Inl err \<Rightarrow> Inl err
                 | Inr r \<Rightarrow> Inr ((inserted_at_prevMI MBB r s)\<lparr>chain0 := clear\<rparr>)))
      else Inr s)"

subsection \<open>One instruction\<close>

text \<open>
  The body of the inner loop for the instruction \<open>MI\<close> at position \<open>i\<close> of the
  block as it was when the iteration began, \<open>rest\<close> being the instructions after
  it. At both flushes of the body \<^verbatim>\<open>prevMI\<close> has a next node, since \<open>MI\<close> comes
  after it.
\<close>

definition set_prevMI :: "MachineInstr \<Rightarrow> driver \<Rightarrow> driver" where
  "set_prevMI MI s =
     s\<lparr>before := before s
                  @ (case prevMI s of None \<Rightarrow> [] | Some pm \<Rightarrow> [(pm, True)])
                  @ map (\<lambda>m. (m, False)) (behind s),
       prevMI := Some MI,
       behind := []\<rparr>"

definition obfuscate_instr ::
  "Env \<Rightarrow> Host \<Rightarrow> GlobalConfig \<Rightarrow> ObfuscationParameter \<Rightarrow> nat \<Rightarrow> (nat \<Rightarrow> nat list) \<Rightarrow> nat \<Rightarrow>
   MachineInstr \<Rightarrow> MachineInstr list \<Rightarrow> driver \<Rightarrow> fatal + driver" where
  "obfuscate_instr env host cfg param MBB MBBScratchRegs i MI rest s =
     (if isDebugInstr MI then Inr (s\<lparr>behind := behind s @ [MI]\<rparr>)
      else
        (let s1 = s\<lparr>processed := processed s + 1\<rparr>;
             MIScratchRegs = MBBScratchRegs i;
             shouldFlagSaved =
               (\<not> isSafeToClobberEFLAGS host (block_view s1 @ MI # rest) (length (block_view s1)));
             (status0, result, e) = ropify host MI MIScratchRegs shouldFlagSaved (BA s1) (engine s1);
             isJump = (hasConditionalJump result \<or> hasUnconditionalJump result);
             status = (if isJump \<and> flagSave result = SAVE_AFTER_EXEC
                       then ERR_UNSUPPORTED else status0);
             s2 = s1\<lparr>engine := e,
                     instr_stat := (if ROPFUSCATOR_INSTRUCTION_STAT
                                    then count_status (instr_stat s1) (getOpcode host MI) status
                                    else instr_stat s1)\<rparr>
         in if status \<noteq> OK
            then (case flush env cfg param MBB True s2 of
                    Inl err \<Rightarrow> Inl err
                  | Inr s3 \<Rightarrow> Inr (s3\<lparr>behind := behind s3 @ [MI]\<rparr>))
            else (case (if canMerge (chain0 s2) result
                        then Inr (s2\<lparr>chain0 := merge (chain0 s2) result\<rparr>)
                        else (case flush env cfg param MBB True s2 of
                                Inl err \<Rightarrow> Inl err
                              | Inr s3 \<Rightarrow> Inr (s3\<lparr>chain0 := result\<rparr>))) of
                    Inl err \<Rightarrow> Inl err
                  | Inr s4 \<Rightarrow> Inr ((set_prevMI MI s4)\<lparr>obfuscated := obfuscated s4 + 1\<rparr>))))"

fun obfuscate_instrs ::
  "Env \<Rightarrow> Host \<Rightarrow> GlobalConfig \<Rightarrow> ObfuscationParameter \<Rightarrow> nat \<Rightarrow> (nat \<Rightarrow> nat list) \<Rightarrow> nat \<Rightarrow>
   MachineInstr list \<Rightarrow> driver \<Rightarrow> fatal + driver" where
  "obfuscate_instrs env host cfg param MBB MBBScratchRegs i [] s = Inr s"
| "obfuscate_instrs env host cfg param MBB MBBScratchRegs i (MI # rest) s =
     (case obfuscate_instr env host cfg param MBB MBBScratchRegs i MI rest s of
        Inl err \<Rightarrow> Inl err
      | Inr s1 \<Rightarrow> obfuscate_instrs env host cfg param MBB MBBScratchRegs (Suc i) rest s1)"

subsection \<open>One block, all blocks\<close>

text \<open>
  The body of the outer loop: the liveness analysis, the inner loop, the flush of
  the pending chain (now \<^verbatim>\<open>prevMI\<close> has a next node only if something was visited
  after it), and the erasure of the instructions of \<^verbatim>\<open>instrToDelete\<close>.
\<close>

definition erase_deleted :: "driver \<Rightarrow> MachineInstr list" where
  "erase_deleted s = map fst (filter (\<lambda>m. \<not> snd m) (before s)) @ behind s"

definition obfuscate_block ::
  "Env \<Rightarrow> Host \<Rightarrow> GlobalConfig \<Rightarrow> ObfuscationParameter \<Rightarrow> driver \<Rightarrow> nat \<Rightarrow> fatal + driver" where
  "obfuscate_block env host cfg param s MBB =
     (let todo = instrs (basicBlocks (MF s) ! MBB);
          MBBScratchRegs = performLivenessAnalysis host todo;
          s0 = s\<lparr>before := [], prevMI := None, behind := [], chain0 := clear\<rparr>
      in case obfuscate_instrs env host cfg param MBB MBBScratchRegs 0 todo s0 of
           Inl err \<Rightarrow> Inl err
         | Inr s1 \<Rightarrow>
             (case flush env cfg param MBB (behind s1 \<noteq> []) s1 of
                Inl err \<Rightarrow> Inl err
              | Inr s2 \<Rightarrow>
                  Inr (s2\<lparr>MF := (MF s2)\<lparr>basicBlocks :=
                         (basicBlocks (MF s2))[MBB :=
                            (basicBlocks (MF s2) ! MBB)\<lparr>instrs := erase_deleted s2\<rparr>]\<rparr>\<rparr>)))"


subsection \<open>obfuscateFunction\<close>

text \<open>
  The configuration (ROPfuscatorConfig.h, with the two fields of the global
  configuration that this version of the driver reads) and the object.
\<close>

record ROPfuscatorConfig =
  defaultParameter :: ObfuscationParameter
  globalConfig :: GlobalConfig
  functionsParameter :: "string \<rightharpoonup> ObfuscationParameter"

definition getParameter :: "ROPfuscatorConfig \<Rightarrow> string \<Rightarrow> ObfuscationParameter" where
  "getParameter cfg funcname =
     (case functionsParameter cfg funcname of
        None \<Rightarrow> defaultParameter cfg
      | Some p \<Rightarrow> p)"





section \<open>Example inputs\<close>

text \<open>
  A file system for \<^verbatim>\<open>findLibcPath\<close>: the first folder holds a directory named
  \<^verbatim>\<open>libc.so.6\<close> and a subdirectory, the second cannot be opened, the third holds
  the library after another file, and \<^verbatim>\<open>/usr/lib\<close> holds one more copy. The second
  file system differs only below a subdirectory.
\<close>

definition example_fs :: filesystem where
  "example_fs d =
     (if d = ''/lib/i386-linux-gnu'' then
        [Entry (directory_entry ''/lib/i386-linux-gnu/libc.so.6'' (Some directory_file)),
         Entry (directory_entry ''/lib/i386-linux-gnu/sub'' (Some directory_file))]
      else if d = ''/lib32'' then
        [Entry (directory_entry ''/lib32/libm.so.6'' (Some regular_file)),
         Entry (directory_entry ''/lib32/libc.so.6'' (Some regular_file))]
      else if d = ''/usr/lib'' then
        [Entry (directory_entry ''/usr/lib/libc.so.6'' (Some regular_file))]
      else [IterError])"

definition example_fs_sub :: filesystem where
  "example_fs_sub d =
     (if d = ''/lib/i386-linux-gnu/sub'' then
        [Entry (directory_entry ''/lib/i386-linux-gnu/sub/libc.so.6'' (Some regular_file))]
      else example_fs d)"

definition example_cfg :: GlobalConfig where
  "example_cfg =
     \<lparr>libraryPath = [], searchSegmentForGadget = True, avoidMultiversionSymbol = False,
      useChainLabel = True, printInstrStat = False\<rparr>"

text \<open>
  Collaborators for the examples: draws \<open>0, 1, 2, \<dots>\<close>, the anchor always the
  symbol at address \<open>0\<close>, opaque constants that declare \<open>0x1000\<close> (a branching one
  the values \<open>0, \<dots>, k - 1\<close>) and clobber two registers and the flags.
\<close>

definition example_env :: Env where
  "example_env =
     \<lparr>rnd = (\<lambda>n. n),
      getRandomSymbol = (\<lambda>n. 0),
      findValue = (\<lambda>c s. 0x1000),
      findValues = (\<lambda>c s. case c of
                      BranchingOpaqueConstant32 t s' k a \<Rightarrow> map of_nat [0..<k]
                    | _ \<Rightarrow> [0x1000]),
      getClobberedRegs = (\<lambda>c. [25, 28, 22]),
      X86_EAX = 22, X86_ESP = 33, X86_EFLAGS = 28\<rparr>"

definition example_param :: ObfuscationParameter where
  "example_param =
     \<lparr>obfuscationEnabled = True, opaquePredicateEnabled = False,
      obfuscateImmediateOperand = False, obfuscateBranchTarget = False,
      opaqueBranchDivergenceEnabled = False, opaqueBranchDivergenceMaxBranches = 32,
      opaqueConstantAlgorithm = ''mov'', opaqueBranchDivergenceAlgorithm = ''addreg''\<rparr>"

definition example_syms :: symtab where
  "example_syms p =
     (if p = 0
      then \<lparr>Label = ''malloc'', Version = ''GLIBC_2.0'', Address = 0x1000, isUsed = False,
            SymVerDirective = ''.symver malloc,malloc@GLIBC_2.0''\<rparr>
      else \<lparr>Label = ''free'', Version = ''Base'', Address = 0x2000, isUsed = False,
            SymVerDirective = []\<rparr>)"

text \<open>A chain that reads the stack cursor recorded under \<open>1\<close>, and a lowering in progress.\<close>

definition example_esp_chain :: ROPChain where
  "example_esp_chain =
     \<lparr>chain = [ESP_OFFSET 1 100, IMM_VALUE 5, ESP_PUSH 1], flagSave = NOT_SAVED,
      hasConditionalJump = False, hasUnconditionalJump = False\<rparr>"

definition example_lowering :: lowering where
  "example_lowering =
     initial_lowering (example_esp_chain\<lparr>flagSave := SAVE_AFTER_EXEC\<rparr>) [1] example_syms 0 0"

text \<open>Opaque immediates switched on, and a chain of one immediate in a given flag mode.\<close>

definition example_opaque_param :: ObfuscationParameter where
  "example_opaque_param =
     example_param\<lparr>opaquePredicateEnabled := True, obfuscateImmediateOperand := True\<rparr>"

definition example_imm_chain :: "FlagSaveMode \<Rightarrow> ROPChain" where
  "example_imm_chain mode =
     \<lparr>chain = [IMM_VALUE 7], flagSave = mode,
      hasConditionalJump = False, hasUnconditionalJump = False\<rparr>"

text \<open>A chain with two gadgets, both anchored (in the examples) at the same versioned symbol.\<close>

definition example_gadget_chain :: ROPChain where
  "example_gadget_chain =
     \<lparr>chain = [GADGET \<lparr>addresses = [0x1234, 0x5678]\<rparr>, IMM_VALUE 1,
               GADGET \<lparr>addresses = [0x9abc]\<rparr>],
      flagSave = NOT_SAVED, hasConditionalJump = False, hasUnconditionalJump = False\<rparr>"

text \<open>
  Branch divergence with at most two branches and opaque predicates switched on, a
  gadget found at four addresses, and the state of a lowering that starts.
\<close>

definition example_divergence_param :: ObfuscationParameter where
  "example_divergence_param =
     example_param\<lparr>opaquePredicateEnabled := True, opaqueBranchDivergenceEnabled := True,
       opaqueBranchDivergenceMaxBranches := 2\<rparr>"

definition example_gadget4 :: Microgadget where
  "example_gadget4 = \<lparr>addresses = [0x1100, 0x1200, 0x1300, 0x1400]\<rparr>"

definition example_start :: lowering where
  "example_start = initial_lowering example_gadget_chain [1] example_syms 0 0"

text \<open>
  A chain that ends in a jump, so that no element is appended to it; collaborators
  of the driver for which opcode \<open>1\<close> gives a chain of one immediate, opcode \<open>2\<close> a
  jump whose flags are to be saved after the execution, and anything else is not
  implemented; a function of two blocks, the first with the given instructions and
  the second as its successor; and the state in which the driver starts.
\<close>

definition example_jump_chain :: "ChainElem list \<Rightarrow> ROPChain" where
  "example_jump_chain es =
     \<lparr>chain = es, flagSave = NOT_SAVED,
      hasConditionalJump = False, hasUnconditionalJump = True\<rparr>"

definition example_host :: Host where
  "example_host =
     \<lparr>ropify = (\<lambda>MI regs shouldFlagSaved syms t.
         case MI of
           X86Instr opcode dbg operands \<Rightarrow>
             if opcode = 1 then (OK, example_imm_chain NOT_SAVED, t)
             else if opcode = 2
             then (OK, (example_jump_chain [JMP_BLOCK 1])\<lparr>flagSave := SAVE_AFTER_EXEC\<rparr>, t)
             else (ERR_NOT_IMPLEMENTED, clear, t)
         | Lowered a \<Rightarrow> (ERR_NOT_IMPLEMENTED, clear, t)),
      performLivenessAnalysis = (\<lambda>block i. []),
      isSafeToClobberEFLAGS = (\<lambda>block i. True),
      getInstance = (\<lambda>cfg. example_syms),
      is64Bit = False,
      loweredOpcode = (\<lambda>a. 0),
      files = example_fs,
      debug_OBF_STATS = True\<rparr>"

definition example_function :: "MachineInstr list \<Rightarrow> MachineFunction" where
  "example_function block =
     \<lparr>getName = ''f'',
      basicBlocks = [\<lparr>instrs = block, Successors = [1]\<rparr>, \<lparr>instrs = [], Successors = []\<rparr>]\<rparr>"

definition example_driver :: "MachineFunction \<Rightarrow> driver" where
  "example_driver mf =
     \<lparr>MF = mf, before = [], prevMI = None, behind = [], chain0 = clear,
      processed = 0, obfuscated = 0, chainID = 0, instr_stat = (\<lambda>opcode outcome. 0),
      BA = example_syms, engine = 0, temps = 0\<rparr>"

text \<open>
  The driver in the middle of the first block: the instruction with opcode \<open>1\<close> has
  been replaced by a chain that is still pending, and a jump comes next.
\<close>

definition example_pending :: driver where
  "example_pending =
     (example_driver (example_function [X86Instr 1 False 0, X86Instr 2 False 0]))
       \<lparr>prevMI := Some (X86Instr 1 False 0),
        chain0 := example_imm_chain NOT_SAVED,
        processed := 1, obfuscated := 1,
        instr_stat := count_status (\<lambda>opcode outcome. 0) 1 OK\<rparr>"


section \<open>Opaque immediates\<close>

text \<open>
  C6. For every value \<open>v\<close> and every opaque constant \<open>c\<close>, whatever output it
  declares: the opaque lowering of \<open>PUSH_IMM v\<close> (the code of \<open>c\<close>, the addition of
  \<open>diff = v - opaque_out\<close> modulo \<open>2 ^ 32\<close> to EAX, the push of EAX) and the plain
  lowering \<open>push v\<close> both run, and both push the 32-bit value of \<open>v\<close> on top of the
  unchanged stack.
\<close>

theorem PUSH_IMM_opaque_same_value:
  "map_option stack (exec_all env (compile env syms (PUSH_IMM (Some c) v)) m)
     = Some (word_of_int v # stack m)
   \<and> map_option stack (exec_all env (compile env syms (PUSH_IMM None v)) m)
     = Some (word_of_int v # stack m)"
  by (simp add: Let_def)

section \<open>The library path\<close>

lemma find_app:
  "List.find P (xs @ ys) = (case List.find P xs of None \<Rightarrow> List.find P ys | Some x \<Rightarrow> Some x)"
  by (induction xs) simp_all

lemma scan_dir_find:
  "scan_dir steps = map_option path (List.find is_libc (entries_read steps))"
  by (induction steps rule: scan_dir.induct) (simp_all add: is_libc_def)

lemma findLibcPath_loop_spec:
  "findLibcPath_loop fs dirs = first_libc_spec fs dirs"
proof (induction dirs)
  case Nil
  show ?case by (simp add: first_libc_spec_def)
next
  case (Cons d dirs)
  show ?case
  proof (cases "List.find is_libc (entries_read (fs d))")
    case None
    then show ?thesis
      using Cons.IH by (simp add: first_libc_spec_def scan_dir_find find_app)
  next
    case (Some e)
    then show ?thesis
      by (simp add: first_libc_spec_def scan_dir_find find_app)
  qed
qed

lemma findLibcPath_loop_cong:
  "(\<forall>d \<in> set dirs. fs d = fs' d) \<Longrightarrow> findLibcPath_loop fs dirs = findLibcPath_loop fs' dirs"
  by (induction dirs) (simp_all split: option.splits)

text \<open>
  C9. The folder list is the seven directories of the claim, in that order. With
  no instance yet and no library path configured, the path becomes the result of
  \<^verbatim>\<open>findLibcPath\<close>, which is the path of the first regular file named
  \<^verbatim>\<open>libc.so.6\<close> met when the folders are listed one after the other, and the empty
  string when there is none. Only the listings of the seven folders are read: two
  file systems that agree on them give the same result, whatever their
  subdirectories hold.
\<close>

theorem findLibcPath_probes_folders_in_order:
  "POSSIBLE_LIBC_FOLDERS =
     [''/lib/i386-linux-gnu'', ''/usr/lib/i386-linux-gnu'', ''/lib32'', ''/usr/lib32'',
      ''/usr/local/lib'', ''/lib'', ''/usr/lib'']
   \<and> (libraryPath cfg = [] \<longrightarrow>
        libraryPath (resolveLibraryPath fs True cfg) = findLibcPath fs)
   \<and> findLibcPath fs = first_libc_spec fs POSSIBLE_LIBC_FOLDERS
   \<and> ((\<forall>d \<in> set POSSIBLE_LIBC_FOLDERS. \<forall>e \<in> set (entries_read (fs d)). \<not> is_libc e) \<longrightarrow>
        findLibcPath fs = [])
   \<and> ((\<forall>d \<in> set POSSIBLE_LIBC_FOLDERS. fs d = fs' d) \<longrightarrow>
        findLibcPath fs = findLibcPath fs')"
proof (intro conjI impI)
  show "POSSIBLE_LIBC_FOLDERS =
     [''/lib/i386-linux-gnu'', ''/usr/lib/i386-linux-gnu'', ''/lib32'', ''/usr/lib32'',
      ''/usr/local/lib'', ''/lib'', ''/usr/lib'']"
    by (simp add: POSSIBLE_LIBC_FOLDERS_def)
next
  assume "libraryPath cfg = []"
  then show "libraryPath (resolveLibraryPath fs True cfg) = findLibcPath fs"
    by (simp add: resolveLibraryPath_def)
next
  show "findLibcPath fs = first_libc_spec fs POSSIBLE_LIBC_FOLDERS"
    by (simp add: findLibcPath_def findLibcPath_loop_spec)
next
  assume none: "\<forall>d \<in> set POSSIBLE_LIBC_FOLDERS. \<forall>e \<in> set (entries_read (fs d)). \<not> is_libc e"
  have "List.find is_libc (concat (map (\<lambda>d. entries_read (fs d)) POSSIBLE_LIBC_FOLDERS)) = None"
    using none by (auto simp: find_None_iff)
  then show "findLibcPath fs = []"
    by (simp add: findLibcPath_def findLibcPath_loop_spec first_libc_spec_def)
next
  assume "\<forall>d \<in> set POSSIBLE_LIBC_FOLDERS. fs d = fs' d"
  then show "findLibcPath fs = findLibcPath fs'"
    unfolding findLibcPath_def by (rule findLibcPath_loop_cong)
qed

theorem findLibcPath_probes_folders_in_order_witness:
  "libraryPath (resolveLibraryPath example_fs True example_cfg) = ''/lib32/libc.so.6''
   \<and> findLibcPath example_fs_sub = ''/lib32/libc.so.6''
   \<and> findLibcPath (\<lambda>d. [IterError]) = []"
proof -
  note here = findLibcPath_probes_folders_in_order [of example_cfg example_fs example_fs_sub]
  note nowhere = findLibcPath_probes_folders_in_order [of example_cfg "\<lambda>d. [IterError]" "\<lambda>d. [IterError]"]
  have unset: "libraryPath example_cfg = []"
    by (simp add: example_cfg_def)
  have agree: "\<forall>d \<in> set POSSIBLE_LIBC_FOLDERS. example_fs d = example_fs_sub d"
    by (simp add: POSSIBLE_LIBC_FOLDERS_def example_fs_sub_def)
  have found: "first_libc_spec example_fs POSSIBLE_LIBC_FOLDERS = ''/lib32/libc.so.6''"
    by (simp add: first_libc_spec_def POSSIBLE_LIBC_FOLDERS_def example_fs_def is_libc_def
        filename_def)
  have empty: "\<forall>d \<in> set POSSIBLE_LIBC_FOLDERS.
      \<forall>e \<in> set (entries_read ((\<lambda>d. [IterError]) d)). \<not> is_libc e"
    by simp
  from here have is_first: "findLibcPath example_fs = first_libc_spec example_fs POSSIBLE_LIBC_FOLDERS"
    by blast
  from here unset
  have "libraryPath (resolveLibraryPath example_fs True example_cfg) = findLibcPath example_fs"
    by blast
  with is_first found
  have "libraryPath (resolveLibraryPath example_fs True example_cfg) = ''/lib32/libc.so.6''"
    by simp
  moreover from here agree have "findLibcPath example_fs = findLibcPath example_fs_sub"
    by blast
  with is_first found have "findLibcPath example_fs_sub = ''/lib32/libc.so.6''"
    by simp
  moreover from nowhere empty have "findLibcPath (\<lambda>d. [IterError]) = []"
    by blast
  ultimately show ?thesis by blast
qed

section \<open>Lowering: how the loop changes its variables\<close>

lemmas example_defs = example_env_def example_cfg_def example_param_def example_syms_def

lemmas insert_defs = insertROPChain_def chain_labels_def generateChainLabels_def string_of_int_def
  with_fallthrough_def isLastInstrInBlock_def initial_lowering_def lower_step_def
  lower_GADGET_def sample_addresses_def lower_JMP_FALLTHROUGH_def attachOpaqueConstant32_def
  emplace_back_def isLayoutSuccessor_def computeSavedRegs_def set_insert_def set_erase_def emit_symver_def
  emit_save_def emit_restore_def save_reg_def restore_reg_def num_branches_of_def
  getSymverDirective_def Let_def

lemmas lower_defs = lower_GADGET_def sample_addresses_def lower_JMP_FALLTHROUGH_def
  attachOpaqueConstant32_def emplace_back_def Let_def

lemma insertROPChain_Inr:
  assumes "insertROPChain env cfg param funcName MBB succs MI_has_next syms t temp c chain_id = Inr r"
  obtains asChainLabel asResumeLabel temp1 where
    "chain_labels cfg funcName chain_id temp = (asChainLabel, asResumeLabel, temp1)"
    "lower_all env param MBB (isLastInstrInBlock c MI_has_next) asResumeLabel
       (rev (with_fallthrough c)) (initial_lowering c succs syms t temp1) = Inr (lowered r)"
    "savedRegs r = computeSavedRegs env param (flagSave c) (pushchain (lowered r))"
    "code r = emit_symver (symbols (lowered r)) (versionedSymbols (lowered r))
              @ emit_save env (savedRegs r) (espoffset (lowered r))
              @ [PutLabel asChainLabel]
              @ concat (map (compile env (symbols (lowered r))) (pushchain (lowered r)))
              @ emit_restore env (savedRegs r)
              @ [Ret]
              @ (if resumeLabelRequired (lowered r) then [PutLabel asResumeLabel] else [])
              @ (if flagSave c = SAVE_AFTER_EXEC then [Popf] else [])"
  using assms unfolding insertROPChain_def
  by (auto simp: Let_def split: prod.splits if_splits sum.splits)

lemma lower_all_append:
  "lower_all env param MBB isLast lbl (xs @ ys) st =
     (case lower_all env param MBB isLast lbl xs st of
        Inl err \<Rightarrow> Inl err
      | Inr st1 \<Rightarrow> lower_all env param MBB isLast lbl ys st1)"
  by (induction xs arbitrary: st) (auto split: sum.splits)

lemma lower_all_Cons_Inr:
  assumes "lower_all env param MBB isLast lbl (e # xs) st = Inr st1"
  obtains st' where
    "lower_step env param MBB isLast lbl e st = Inr st'"
    "lower_all env param MBB isLast lbl xs st' = Inr st1"
  using assms by (auto split: sum.splits)

subsection \<open>The recorded stack cursors\<close>

lemma lower_elem_espOffsetMap:
  "lower_elem env param MBB isLast lbl e st = Inr st1 \<Longrightarrow>
   espOffsetMap st1 =
     (case e of
        ESP_PUSH esp_id \<Rightarrow> (espOffsetMap st)(esp_id \<mapsto> espoffset st)
      | _ \<Rightarrow> espOffsetMap st)"
  by (cases e) (auto simp: lower_defs split: prod.splits if_splits option.splits list.splits)

lemma lower_step_espOffsetMap:
  "lower_step env param MBB isLast lbl e st = Inr st1 \<Longrightarrow>
   espOffsetMap st1 =
     (case e of
        ESP_PUSH esp_id \<Rightarrow> (espOffsetMap st)(esp_id \<mapsto> espoffset st)
      | _ \<Rightarrow> espOffsetMap st)"
  by (auto simp: lower_step_def dest: lower_elem_espOffsetMap split: sum.splits)

lemma lower_all_keeps_recorded:
  "lower_all env param MBB isLast lbl xs st = Inr st1 \<Longrightarrow> ESP_PUSH esp_id \<notin> set xs \<Longrightarrow>
   espOffsetMap st1 esp_id = espOffsetMap st esp_id"
proof (induction xs arbitrary: st)
  case Nil
  then show ?case by simp
next
  case (Cons e xs)
  from Cons.prems(1) obtain st' where
    step: "lower_step env param MBB isLast lbl e st = Inr st'" and
    rest: "lower_all env param MBB isLast lbl xs st' = Inr st1"
    by (rule lower_all_Cons_Inr)
  from Cons.prems(2) have "e \<noteq> ESP_PUSH esp_id" "ESP_PUSH esp_id \<notin> set xs" by auto
  with lower_step_espOffsetMap [OF step] Cons.IH [OF rest]
  show ?case by (cases e) auto
qed

lemma lower_all_dom:
  "lower_all env param MBB isLast lbl xs st = Inr st1 \<Longrightarrow>
   dom (espOffsetMap st1) = dom (espOffsetMap st) \<union> {i. ESP_PUSH i \<in> set xs}"
proof (induction xs arbitrary: st)
  case Nil
  then show ?case by simp
next
  case (Cons e xs)
  from Cons.prems(1) obtain st' where
    step: "lower_step env param MBB isLast lbl e st = Inr st'" and
    rest: "lower_all env param MBB isLast lbl xs st' = Inr st1"
    by (rule lower_all_Cons_Inr)
  have "dom (espOffsetMap st') = dom (espOffsetMap st) \<union> {i. e = ESP_PUSH i}"
    using lower_step_espOffsetMap [OF step] by (cases e) auto
  with Cons.IH [OF rest] show ?case by auto
qed

lemma ESP_OFFSET_needs_ESP_PUSH:
  assumes "lower_all env param MBB isLast lbl (rev (pre @ ESP_OFFSET esp_id v # post)) st = Inr st1"
    and "espOffsetMap st = Map.empty"
  shows "ESP_PUSH esp_id \<in> set post"
proof -
  from assms(1) obtain st2 st3 where
    first: "lower_all env param MBB isLast lbl (rev post) st = Inr st2" and
    this: "lower_step env param MBB isLast lbl (ESP_OFFSET esp_id v) st2 = Inr st3"
    by (auto simp: lower_all_append split: sum.splits)
  from this have "esp_id \<in> dom (espOffsetMap st2)"
    by (auto simp: lower_step_def split: option.splits sum.splits)
  with lower_all_dom [OF first] assms(2) show ?thesis by simp
qed

section \<open>Saved registers\<close>

lemma set_insert_props:
  "set (set_insert x xs) = insert x (set xs)"
  "sorted xs \<Longrightarrow> sorted (set_insert x xs)"
  "distinct xs \<Longrightarrow> distinct (set_insert x xs)"
  by (auto simp: set_insert_def set_insort_key sorted_insort distinct_insort)

lemma fold_set_insert_props:
  "set (fold set_insert ys xs) = set ys \<union> set xs"
  "sorted xs \<Longrightarrow> sorted (fold set_insert ys xs)"
  "distinct xs \<Longrightarrow> distinct (fold set_insert ys xs)"
  by (induction ys arbitrary: xs) (auto simp: set_insert_props)

lemma insertClobbered_props:
  "set (insertClobbered env pushes acc) = set acc \<union> (\<Union>p\<in>set pushes. attached_clobbers env p)"
  "sorted acc \<Longrightarrow> sorted (insertClobbered env pushes acc)"
  "distinct acc \<Longrightarrow> distinct (insertClobbered env pushes acc)"
  by (induction pushes arbitrary: acc)
    (auto simp: attached_clobbers_def fold_set_insert_props split: option.splits)

lemma lower_elem_no_opaque:
  "\<not> opaquePredicateEnabled param \<Longrightarrow> lower_elem env param MBB isLast lbl e st = Inr st1 \<Longrightarrow>
   \<forall>p\<in>set (pushchain st). opaqueConstant p = None \<Longrightarrow>
   \<forall>p\<in>set (pushchain st1). opaqueConstant p = None"
  by (cases e) (auto simp: lower_defs split: prod.splits if_splits option.splits list.splits)

lemma lower_all_no_opaque:
  "\<not> opaquePredicateEnabled param \<Longrightarrow> lower_all env param MBB isLast lbl es st = Inr st1 \<Longrightarrow>
   \<forall>p\<in>set (pushchain st). opaqueConstant p = None \<Longrightarrow>
   \<forall>p\<in>set (pushchain st1). opaqueConstant p = None"
proof (induction es arbitrary: st)
  case Nil
  then show ?case by simp
next
  case (Cons e es)
  from Cons.prems(2) obtain st' where
    step: "lower_step env param MBB isLast lbl e st = Inr st'" and
    rest: "lower_all env param MBB isLast lbl es st' = Inr st1"
    by (rule lower_all_Cons_Inr)
  from step obtain st'' where e: "lower_elem env param MBB isLast lbl e st = Inr st''"
    and st': "st' = st''\<lparr>espoffset := espoffset st'' - 4\<rparr>"
    by (auto simp: lower_step_def split: sum.splits)
  from lower_elem_no_opaque [OF Cons.prems(1) e Cons.prems(3)] st'
  have "\<forall>p\<in>set (pushchain st'). opaqueConstant p = None" by simp
  from Cons.IH [OF Cons.prems(1) rest this] show ?case .
qed

lemma computeSavedRegs_set:
  "set (computeSavedRegs env param mode pushes) =
     ((if opaquePredicateEnabled param then (\<Union>p\<in>set pushes. attached_clobbers env p) else {})
        - {X86_EFLAGS env})
     \<union> (if mode = SAVE_BEFORE_EXEC then {X86_EFLAGS env} else {})"
  by (auto simp: computeSavedRegs_def Let_def insertClobbered_props set_insert_props set_erase_def)

lemma computeSavedRegs_distinct:
  "distinct (computeSavedRegs env param mode pushes)"
  by (auto simp: computeSavedRegs_def Let_def insertClobbered_props set_insert_props set_erase_def
      distinct_removeAll)

lemma regs_saved_emit_save: "regs_saved env (emit_save env rs off) = rs"
proof -
  have "concat (map (\<lambda>i. case i of Push (Reg r) \<Rightarrow> [r] | Pushf \<Rightarrow> [X86_EFLAGS env] | _ \<Rightarrow> [])
       (map (save_reg env) xs)) = xs" for xs
    by (induction xs) (auto simp: save_reg_def)
  then show ?thesis
    by (simp add: regs_saved_def emit_save_def)
qed

lemma regs_restored_emit_restore: "regs_restored env (emit_restore env rs) = rev rs"
proof -
  have "concat (map (\<lambda>i. case i of Pop (Reg r) \<Rightarrow> [r] | Popf \<Rightarrow> [X86_EFLAGS env] | _ \<Rightarrow> [])
       (map (restore_reg env) xs)) = xs" for xs
    by (induction xs) (auto simp: restore_reg_def)
  then show ?thesis
    by (simp add: regs_restored_def emit_restore_def)
qed


lemma insertROPChain_savedRegs_set:
  assumes run: "insertROPChain env cfg param funcName MBB succs MI_has_next syms t temp c chain_id = Inr r"
  shows "set (savedRegs r) =
       ((\<Union>p\<in>set (pushchain (lowered r)). attached_clobbers env p) - {X86_EFLAGS env})
       \<union> (if flagSave c = SAVE_BEFORE_EXEC then {X86_EFLAGS env} else {})"
proof -
  from run obtain asResumeLabel temp1 where
    low: "lower_all env param MBB (isLastInstrInBlock c MI_has_next) asResumeLabel
       (rev (with_fallthrough c)) (initial_lowering c succs syms t temp1) = Inr (lowered r)" and
    regs: "savedRegs r = computeSavedRegs env param (flagSave c) (pushchain (lowered r))"
    by (rule insertROPChain_Inr)
  show ?thesis
  proof (cases "opaquePredicateEnabled param")
    case True
    then show ?thesis unfolding regs computeSavedRegs_set by simp
  next
    case False
    have "\<forall>p\<in>set (pushchain (initial_lowering c succs syms t temp1)). opaqueConstant p = None"
      by (simp add: initial_lowering_def)
    from lower_all_no_opaque [OF False low this]
    have "(\<Union>p\<in>set (pushchain (lowered r)). attached_clobbers env p) = {}"
      by (simp add: attached_clobbers_def)
    with False show ?thesis unfolding regs computeSavedRegs_set by simp
  qed
qed

lemma insertROPChain_code_shape:
  assumes run: "insertROPChain env cfg param funcName MBB succs MI_has_next syms t temp c chain_id = Inr r"
  shows "\<exists>directives asChainLabel after_ret.
          code r = directives
                   @ emit_save env (savedRegs r) (espoffset (lowered r))
                   @ [PutLabel asChainLabel]
                   @ concat (map (compile env (symbols (lowered r))) (pushchain (lowered r)))
                   @ emit_restore env (savedRegs r)
                   @ Ret # after_ret"
proof -
  from run obtain asChainLabel asResumeLabel where
    code: "code r = emit_symver (symbols (lowered r)) (versionedSymbols (lowered r))
              @ emit_save env (savedRegs r) (espoffset (lowered r))
              @ [PutLabel asChainLabel]
              @ concat (map (compile env (symbols (lowered r))) (pushchain (lowered r)))
              @ emit_restore env (savedRegs r)
              @ [Ret]
              @ (if resumeLabelRequired (lowered r) then [PutLabel asResumeLabel] else [])
              @ (if flagSave c = SAVE_AFTER_EXEC then [Popf] else [])"
    by (rule insertROPChain_Inr)
  show ?thesis
    apply (rule exI [of _ "emit_symver (symbols (lowered r)) (versionedSymbols (lowered r))"])
    apply (rule exI [of _ asChainLabel])
    apply (rule exI [of _ "(if resumeLabelRequired (lowered r) then [PutLabel asResumeLabel] else [])
              @ (if flagSave c = SAVE_AFTER_EXEC then [Popf] else [])"])
    apply (simp only: code append_Cons append_Nil)
    done
qed

lemma insertROPChain_savedRegs_distinct:
  assumes run: "insertROPChain env cfg param funcName MBB succs MI_has_next syms t temp c chain_id = Inr r"
  shows "distinct (savedRegs r)"
proof -
  from run have "savedRegs r = computeSavedRegs env param (flagSave c) (pushchain (lowered r))"
    by (rule insertROPChain_Inr)
  then show ?thesis by (simp add: computeSavedRegs_distinct)
qed

text \<open>
  C5. When \<^verbatim>\<open>insertROPChain\<close> returns, the registers it saves are the registers
  clobbered by the opaque constants attached to the pushes of the chain, without
  EFLAGS, together with EFLAGS exactly when the flag mode is \<^verbatim>\<open>SAVE_BEFORE_EXEC\<close>;
  each register is saved once. The emitted code saves exactly these registers
  before the chain label and restores them, in reverse order, after the pushes and
  before the \<^verbatim>\<open>ret\<close>.
\<close>

theorem savedRegs_are_clobbers_and_flags:
  "insertROPChain env cfg param funcName MBB succs MI_has_next syms t temp c chain_id = Inr r \<longrightarrow>
     set (savedRegs r) =
       ((\<Union>p\<in>set (pushchain (lowered r)). attached_clobbers env p) - {X86_EFLAGS env})
       \<union> (if flagSave c = SAVE_BEFORE_EXEC then {X86_EFLAGS env} else {})
     \<and> distinct (savedRegs r)
     \<and> (X86_EFLAGS env \<in> set (savedRegs r) \<longleftrightarrow> flagSave c = SAVE_BEFORE_EXEC)
     \<and> (\<exists>directives asChainLabel after_ret.
          code r = directives
                   @ emit_save env (savedRegs r) (espoffset (lowered r))
                   @ [PutLabel asChainLabel]
                   @ concat (map (compile env (symbols (lowered r))) (pushchain (lowered r)))
                   @ emit_restore env (savedRegs r)
                   @ Ret # after_ret)
     \<and> regs_saved env (emit_save env (savedRegs r) (espoffset (lowered r))) = savedRegs r
     \<and> regs_restored env (emit_restore env (savedRegs r)) = rev (savedRegs r)"
proof (intro impI conjI)
  assume run: "insertROPChain env cfg param funcName MBB succs MI_has_next syms t temp c chain_id = Inr r"
  show "set (savedRegs r) =
       ((\<Union>p\<in>set (pushchain (lowered r)). attached_clobbers env p) - {X86_EFLAGS env})
       \<union> (if flagSave c = SAVE_BEFORE_EXEC then {X86_EFLAGS env} else {})"
    using run by (rule insertROPChain_savedRegs_set)
  then show "X86_EFLAGS env \<in> set (savedRegs r) \<longleftrightarrow> flagSave c = SAVE_BEFORE_EXEC"
    by simp
  show "distinct (savedRegs r)"
    using run by (rule insertROPChain_savedRegs_distinct)
  show "\<exists>directives asChainLabel after_ret.
          code r = directives
                   @ emit_save env (savedRegs r) (espoffset (lowered r))
                   @ [PutLabel asChainLabel]
                   @ concat (map (compile env (symbols (lowered r))) (pushchain (lowered r)))
                   @ emit_restore env (savedRegs r)
                   @ Ret # after_ret"
    using run by (rule insertROPChain_code_shape)
  show "regs_saved env (emit_save env (savedRegs r) (espoffset (lowered r))) = savedRegs r"
    by (rule regs_saved_emit_save)
  show "regs_restored env (emit_restore env (savedRegs r)) = rev (savedRegs r)"
    by (rule regs_restored_emit_restore)
qed


theorem savedRegs_are_clobbers_and_flags_witness:
  "savedRegs (projr (insertROPChain example_env example_cfg example_opaque_param ''f'' 0
          [1] True example_syms 0 0 (example_imm_chain SAVE_BEFORE_EXEC) 0)) = [22, 25, 28]
   \<and> X86_EFLAGS example_env \<in> set (savedRegs (projr (insertROPChain example_env example_cfg
          example_opaque_param ''f'' 0 [1] True example_syms 0 0
          (example_imm_chain SAVE_BEFORE_EXEC) 0)))
   \<and> savedRegs (projr (insertROPChain example_env example_cfg example_opaque_param ''f'' 0
          [1] True example_syms 0 0 (example_imm_chain NOT_SAVED) 0)) = [22, 25]
   \<and> X86_EFLAGS example_env \<notin> set (savedRegs (projr (insertROPChain example_env example_cfg
          example_opaque_param ''f'' 0 [1] True example_syms 0 0
          (example_imm_chain NOT_SAVED) 0)))"
proof -
  let ?ins = "\<lambda>mode. insertROPChain example_env example_cfg example_opaque_param ''f'' 0 [1] True
          example_syms 0 0 (example_imm_chain mode) 0"
  note defs = insert_defs example_defs example_opaque_param_def example_imm_chain_def
  define r1 where "r1 = projr (?ins SAVE_BEFORE_EXEC)"
  define r2 where "r2 = projr (?ins NOT_SAVED)"
  have run1: "?ins SAVE_BEFORE_EXEC = Inr r1"
    unfolding r1_def by (simp add: defs)
  have run2: "?ins NOT_SAVED = Inr r2"
    unfolding r2_def by (simp add: defs)
  have regs1: "savedRegs r1 = [22, 25, 28]"
    unfolding r1_def by (simp add: defs)
  have regs2: "savedRegs r2 = [22, 25]"
    unfolding r2_def by (simp add: defs)
  have mode1: "flagSave (example_imm_chain SAVE_BEFORE_EXEC) = SAVE_BEFORE_EXEC"
    by (simp add: example_imm_chain_def)
  have mode2: "flagSave (example_imm_chain NOT_SAVED) \<noteq> SAVE_BEFORE_EXEC"
    by (simp add: example_imm_chain_def)
  have "X86_EFLAGS example_env \<in> set (savedRegs r1)
      \<longleftrightarrow> flagSave (example_imm_chain SAVE_BEFORE_EXEC) = SAVE_BEFORE_EXEC"
    using savedRegs_are_clobbers_and_flags [where env = example_env and cfg = example_cfg
        and param = example_opaque_param and funcName = "''f''" and MBB = 0 and succs = "[1]"
        and MI_has_next = True and syms = example_syms and t = 0 and temp = 0 and chain_id = 0
        and c = "example_imm_chain SAVE_BEFORE_EXEC" and r = r1] run1
    by (elim impE conjE)
  with mode1 have flags1: "X86_EFLAGS example_env \<in> set (savedRegs r1)"
    by (simp only:)
  have "X86_EFLAGS example_env \<in> set (savedRegs r2)
      \<longleftrightarrow> flagSave (example_imm_chain NOT_SAVED) = SAVE_BEFORE_EXEC"
    using savedRegs_are_clobbers_and_flags [where env = example_env and cfg = example_cfg
        and param = example_opaque_param and funcName = "''f''" and MBB = 0 and succs = "[1]"
        and MI_has_next = True and syms = example_syms and t = 0 and temp = 0 and chain_id = 0
        and c = "example_imm_chain NOT_SAVED" and r = r2] run2
    by (elim impE conjE)
  with mode2 have flags2: "X86_EFLAGS example_env \<notin> set (savedRegs r2)"
    by (simp only: simp_thms)
  from regs1 flags1 regs2 flags2 show ?thesis
    unfolding r1_def r2_def by (intro conjI)
qed

section \<open>Symbol version directives\<close>

lemma lower_all_preserves:
  assumes "lower_all env param MBB isLast lbl es st = Inr st1"
    and "P st"
    and "\<And>e s s'. lower_step env param MBB isLast lbl e s = Inr s' \<Longrightarrow> P s \<Longrightarrow> P s'"
  shows "P st1"
  using assms(1,2)
proof (induction es arbitrary: st)
  case Nil
  then show ?case by simp
next
  case (Cons e es)
  from Cons.prems(1) obtain st' where
    step: "lower_step env param MBB isLast lbl e st = Inr st'" and
    rest: "lower_all env param MBB isLast lbl es st' = Inr st1"
    by (rule lower_all_Cons_Inr)
  from assms(3) [OF step Cons.prems(2)] have "P st'" .
  with Cons.IH rest show ?case by blast
qed

lemma lower_step_Inr:
  assumes "lower_step env param MBB isLast lbl e st = Inr st1"
  obtains st' where "lower_elem env param MBB isLast lbl e st = Inr st'"
    "st1 = st'\<lparr>espoffset := espoffset st' - 4\<rparr>"
  using assms by (auto simp: lower_step_def split: sum.splits)

subsection \<open>The symbol store and the versioned symbols\<close>

lemma lower_elem_symbols:
  assumes "lower_elem env param MBB isLast lbl e st = Inr st1"
  shows "(versionedSymbols st1 = versionedSymbols st \<and> symbols st1 = symbols st)
       \<or> (\<exists>s. versionedSymbols st1 = versionedSymbols st @ [s]
              \<and> \<not> isUsed (symbols st s) \<and> Version (symbols st s) \<noteq> ''Base''
              \<and> symbols st1 = (symbols st)(s := (symbols st s)\<lparr>isUsed := True\<rparr>))"
  using assms
  by (cases e) (auto simp: lower_defs split: prod.splits if_splits option.splits list.splits)

lemma lower_step_symbols:
  assumes "lower_step env param MBB isLast lbl e st = Inr st1"
  shows "\<exists>new. versionedSymbols st1 = versionedSymbols st @ new \<and> distinct new
       \<and> (\<forall>s\<in>set new. \<not> isUsed (symbols st s) \<and> Version (symbols st s) \<noteq> ''Base'')
       \<and> symbols st1 = mark_used (symbols st) new"
proof -
  from assms obtain st' where e: "lower_elem env param MBB isLast lbl e st = Inr st'"
    and st1: "st1 = st'\<lparr>espoffset := espoffset st' - 4\<rparr>"
    by (rule lower_step_Inr)
  from lower_elem_symbols [OF e] show ?thesis
  proof
    assume "versionedSymbols st' = versionedSymbols st \<and> symbols st' = symbols st"
    then show ?thesis unfolding st1
      by (intro exI [of _ "[]"]) (simp add: mark_used_def)
  next
    assume "\<exists>s. versionedSymbols st' = versionedSymbols st @ [s]
              \<and> \<not> isUsed (symbols st s) \<and> Version (symbols st s) \<noteq> ''Base''
              \<and> symbols st' = (symbols st)(s := (symbols st s)\<lparr>isUsed := True\<rparr>)"
    then obtain s where s: "versionedSymbols st' = versionedSymbols st @ [s]"
      "\<not> isUsed (symbols st s)" "Version (symbols st s) \<noteq> ''Base''"
      "symbols st' = (symbols st)(s := (symbols st s)\<lparr>isUsed := True\<rparr>)" by blast
    show ?thesis unfolding st1
      by (intro exI [of _ "[s]"]) (use s in \<open>auto simp: mark_used_def\<close>)
  qed
qed

lemma mark_used_twice:
  "mark_used (mark_used syms new1) new2 = mark_used syms (new1 @ new2)"
  by (auto simp: mark_used_def fun_eq_iff)

lemma lower_all_symbols:
  "lower_all env param MBB isLast lbl es st = Inr st1 \<Longrightarrow>
   \<exists>new. versionedSymbols st1 = versionedSymbols st @ new \<and> distinct new
       \<and> (\<forall>s\<in>set new. \<not> isUsed (symbols st s) \<and> Version (symbols st s) \<noteq> ''Base'')
       \<and> symbols st1 = mark_used (symbols st) new"
proof (induction es arbitrary: st)
  case Nil
  then show ?case by (intro exI [of _ "[]"]) (simp add: mark_used_def)
next
  case (Cons e es)
  from Cons.prems(1) obtain st' where
    step: "lower_step env param MBB isLast lbl e st = Inr st'" and
    rest: "lower_all env param MBB isLast lbl es st' = Inr st1"
    by (rule lower_all_Cons_Inr)
  from lower_step_symbols [OF step] obtain new1 where n1:
    "versionedSymbols st' = versionedSymbols st @ new1" "distinct new1"
    "\<forall>s\<in>set new1. \<not> isUsed (symbols st s) \<and> Version (symbols st s) \<noteq> ''Base''"
    "symbols st' = mark_used (symbols st) new1" by blast
  from Cons.IH [OF rest] obtain new2 where n2:
    "versionedSymbols st1 = versionedSymbols st' @ new2" "distinct new2"
    "\<forall>s\<in>set new2. \<not> isUsed (symbols st' s) \<and> Version (symbols st' s) \<noteq> ''Base''"
    "symbols st1 = mark_used (symbols st') new2" by blast
  have disj: "set new1 \<inter> set new2 = {}"
    using n2(3) unfolding n1(4) by (auto simp: mark_used_def)
  have old: "\<forall>s\<in>set new2. \<not> isUsed (symbols st s) \<and> Version (symbols st s) \<noteq> ''Base''"
    using n2(3) disj unfolding n1(4) by (auto simp: mark_used_def split: if_splits)
  show ?case
  proof (intro exI [of _ "new1 @ new2"] conjI)
    show "versionedSymbols st1 = versionedSymbols st @ new1 @ new2"
      by (simp add: n1(1) n2(1))
    show "distinct (new1 @ new2)" using n1(2) n2(2) disj by simp
    show "\<forall>s\<in>set (new1 @ new2). \<not> isUsed (symbols st s) \<and> Version (symbols st s) \<noteq> ''Base''"
      using n1(3) old by auto
    show "symbols st1 = mark_used (symbols st) (new1 @ new2)"
      by (simp add: n2(4) n1(4) mark_used_twice)
  qed
qed

lemma compile_no_InlineAsm: "InlineAsm d \<notin> set (compile env syms p)"
  by (cases p) (auto simp: Let_def split: option.splits)

lemma compile_no_PutLabel: "PutLabel l \<notin> set (compile env syms p)"
  by (cases p) (auto simp: Let_def split: option.splits)

lemma emit_save_no_InlineAsm: "InlineAsm d \<notin> set (emit_save env rs off)"
  by (auto simp: emit_save_def save_reg_def)

lemma emit_restore_no_InlineAsm: "InlineAsm d \<notin> set (emit_restore env rs)"
  by (auto simp: emit_restore_def restore_reg_def)

lemma emit_save_no_PutLabel: "PutLabel l \<notin> set (emit_save env rs off)"
  by (auto simp: emit_save_def save_reg_def)

lemma emit_restore_no_PutLabel: "PutLabel l \<notin> set (emit_restore env rs)"
  by (auto simp: emit_restore_def restore_reg_def)

lemma emit_symver_no_PutLabel: "PutLabel l \<notin> set (emit_symver syms vs)"
  by (auto simp: emit_symver_def)

lemma insertROPChain_symver_first:
  assumes run: "insertROPChain env cfg param funcName MBB succs MI_has_next syms t temp c chain_id = Inr r"
  shows "\<exists>rest. code r = emit_symver (symbols (lowered r)) (versionedSymbols (lowered r)) @ rest
          \<and> (\<forall>d. InlineAsm d \<notin> set rest)"
proof -
  from run obtain asChainLabel asResumeLabel where
    code: "code r = emit_symver (symbols (lowered r)) (versionedSymbols (lowered r))
              @ emit_save env (savedRegs r) (espoffset (lowered r))
              @ [PutLabel asChainLabel]
              @ concat (map (compile env (symbols (lowered r))) (pushchain (lowered r)))
              @ emit_restore env (savedRegs r)
              @ [Ret]
              @ (if resumeLabelRequired (lowered r) then [PutLabel asResumeLabel] else [])
              @ (if flagSave c = SAVE_AFTER_EXEC then [Popf] else [])"
    by (rule insertROPChain_Inr)
  show ?thesis
    apply (rule exI [of _ "emit_save env (savedRegs r) (espoffset (lowered r))
              @ [PutLabel asChainLabel]
              @ concat (map (compile env (symbols (lowered r))) (pushchain (lowered r)))
              @ emit_restore env (savedRegs r)
              @ [Ret]
              @ (if resumeLabelRequired (lowered r) then [PutLabel asResumeLabel] else [])
              @ (if flagSave c = SAVE_AFTER_EXEC then [Popf] else [])"])
    apply (rule conjI)
     apply (rule code)
    apply (simp add: emit_save_no_InlineAsm emit_restore_no_InlineAsm compile_no_InlineAsm)
    done
qed

lemma insertROPChain_symbols:
  assumes run: "insertROPChain env cfg param funcName MBB succs MI_has_next syms t temp c chain_id = Inr r"
  shows "distinct (versionedSymbols (lowered r))"
    and "\<forall>s\<in>set (versionedSymbols (lowered r)). \<not> isUsed (syms s) \<and> Version (syms s) \<noteq> ''Base''"
    and "symbols (lowered r) = mark_used syms (versionedSymbols (lowered r))"
proof -
  from run obtain asResumeLabel temp1 where
    low: "lower_all env param MBB (isLastInstrInBlock c MI_has_next) asResumeLabel
       (rev (with_fallthrough c)) (initial_lowering c succs syms t temp1) = Inr (lowered r)"
    by (rule insertROPChain_Inr)
  from lower_all_symbols [OF low] obtain new where new:
    "versionedSymbols (lowered r) = versionedSymbols (initial_lowering c succs syms t temp1) @ new"
    "distinct new"
    "\<forall>s\<in>set new. \<not> isUsed (symbols (initial_lowering c succs syms t temp1) s)
        \<and> Version (symbols (initial_lowering c succs syms t temp1) s) \<noteq> ''Base''"
    "symbols (lowered r) = mark_used (symbols (initial_lowering c succs syms t temp1)) new"
    by blast
  have vs: "versionedSymbols (lowered r) = new"
    using new(1) by (simp add: initial_lowering_def)
  show "distinct (versionedSymbols (lowered r))" using new(2) vs by simp
  show "\<forall>s\<in>set (versionedSymbols (lowered r)). \<not> isUsed (syms s) \<and> Version (syms s) \<noteq> ''Base''"
    using new(3) vs by (simp add: initial_lowering_def)
  show "symbols (lowered r) = mark_used syms (versionedSymbols (lowered r))"
    using new(4) vs by (simp add: initial_lowering_def)
qed

text \<open>
  C8. When \<^verbatim>\<open>insertROPChain\<close> returns: the symbols whose directive it emits are
  pairwise different, each had \<^verbatim>\<open>isUsed\<close> false before the call and a version
  other than \<^verbatim>\<open>Base\<close>; the call changes the symbol store only by setting
  \<^verbatim>\<open>isUsed\<close> of exactly these symbols; the directives are the first thing emitted
  and no other inline assembly follows, so every push of the chain comes after
  them; and a later call, starting from the store this call leaves, emits no
  directive for any of these symbols again.
\<close>

theorem symver_once_per_symbol:
  "insertROPChain env cfg param funcName MBB succs MI_has_next syms t temp c chain_id = Inr r \<longrightarrow>
     distinct (versionedSymbols (lowered r))
     \<and> (\<forall>s\<in>set (versionedSymbols (lowered r)). \<not> isUsed (syms s) \<and> Version (syms s) \<noteq> ''Base'')
     \<and> symbols (lowered r) = mark_used syms (versionedSymbols (lowered r))
     \<and> (\<exists>rest. code r = emit_symver (symbols (lowered r)) (versionedSymbols (lowered r)) @ rest
            \<and> (\<forall>d. InlineAsm d \<notin> set rest))
     \<and> (insertROPChain env cfg param' funcName' MBB' succs' MI_has_next' (symbols (lowered r))
           t' temp' c' chain_id' = Inr r' \<longrightarrow>
         set (versionedSymbols (lowered r')) \<inter> set (versionedSymbols (lowered r)) = {})"
proof (intro impI conjI)
  assume run: "insertROPChain env cfg param funcName MBB succs MI_has_next syms t temp c chain_id = Inr r"
  show "distinct (versionedSymbols (lowered r))"
    using run by (rule insertROPChain_symbols)
  show "\<forall>s\<in>set (versionedSymbols (lowered r)). \<not> isUsed (syms s) \<and> Version (syms s) \<noteq> ''Base''"
    using run by (rule insertROPChain_symbols)
  show marked: "symbols (lowered r) = mark_used syms (versionedSymbols (lowered r))"
    using run by (rule insertROPChain_symbols)
  show "\<exists>rest. code r = emit_symver (symbols (lowered r)) (versionedSymbols (lowered r)) @ rest
            \<and> (\<forall>d. InlineAsm d \<notin> set rest)"
    using run by (rule insertROPChain_symver_first)
  assume again: "insertROPChain env cfg param' funcName' MBB' succs' MI_has_next' (symbols (lowered r))
           t' temp' c' chain_id' = Inr r'"
  have "\<forall>s\<in>set (versionedSymbols (lowered r')). \<not> isUsed (symbols (lowered r) s)"
    using insertROPChain_symbols(2) [OF again] by blast
  then show "set (versionedSymbols (lowered r')) \<inter> set (versionedSymbols (lowered r)) = {}"
    unfolding marked by (auto simp: mark_used_def)
qed

theorem symver_once_per_symbol_witness:
  "versionedSymbols (lowered (projr
      (insertROPChain example_env example_cfg example_param ''f'' 0 [1] True example_syms 0 0
         example_gadget_chain 0))) = [0]
   \<and> hd (code (projr
      (insertROPChain example_env example_cfg example_param ''f'' 0 [1] True example_syms 0 0
         example_gadget_chain 0))) = InlineAsm ''.symver malloc,malloc@GLIBC_2.0''
   \<and> isUsed (symbols (lowered (projr
      (insertROPChain example_env example_cfg example_param ''f'' 0 [1] True example_syms 0 0
         example_gadget_chain 0))) 0)
   \<and> 0 \<notin> set (versionedSymbols (lowered (projr
      (insertROPChain example_env example_cfg example_param ''f'' 0 [1] True
         (symbols (lowered (projr
            (insertROPChain example_env example_cfg example_param ''f'' 0 [1] True
               example_syms 0 0 example_gadget_chain 0))))
         7 0 example_gadget_chain 1))))"
proof -
  note defs = insert_defs example_defs example_gadget_chain_def
  define r1 where "r1 = projr (insertROPChain example_env example_cfg example_param ''f'' 0 [1]
      True example_syms 0 0 example_gadget_chain 0)"
  define r2 where "r2 = projr (insertROPChain example_env example_cfg example_param ''f'' 0 [1]
      True (symbols (lowered r1)) 7 0 example_gadget_chain 1)"
  have "\<not> isl (insertROPChain example_env example_cfg example_param ''f'' 0 [1]
      True example_syms 0 0 example_gadget_chain 0)"
    by code_simp
  then have run1: "insertROPChain example_env example_cfg example_param ''f'' 0 [1]
      True example_syms 0 0 example_gadget_chain 0 = Inr r1"
    unfolding r1_def by simp
  have emitted: "versionedSymbols (lowered r1) = [0]"
    unfolding r1_def by code_simp
  note first = symver_once_per_symbol [where env = example_env and cfg = example_cfg
      and param = example_param and funcName = "''f''" and MBB = 0 and succs = "[1]"
      and MI_has_next = True and syms = example_syms and t = 0 and temp = 0 and chain_id = 0
      and c = example_gadget_chain and r = r1
      and param' = example_param and funcName' = "''f''" and MBB' = 0 and succs' = "[1]"
      and MI_has_next' = True and t' = 7 and temp' = 0 and chain_id' = 1
      and c' = example_gadget_chain and r' = r2,
      THEN mp, OF run1]
  from first have marked: "symbols (lowered r1) = mark_used example_syms (versionedSymbols (lowered r1))"
    by (elim conjE)
  have used: "isUsed (symbols (lowered r1) 0)"
    unfolding marked emitted by (simp add: mark_used_def)
  from first obtain rest where
    "code r1 = emit_symver (symbols (lowered r1)) (versionedSymbols (lowered r1)) @ rest"
    by (elim conjE exE)
  then have front: "hd (code r1) = InlineAsm ''.symver malloc,malloc@GLIBC_2.0''"
    unfolding marked emitted
    by (simp add: emit_symver_def mark_used_def example_syms_def getSymverDirective_def)
  have "\<not> isl (insertROPChain example_env example_cfg example_param ''f'' 0 [1]
      True (symbols (lowered r1)) 7 0 example_gadget_chain 1)"
    unfolding r1_def by code_simp
  then have run2: "insertROPChain example_env example_cfg example_param ''f'' 0 [1]
      True (symbols (lowered r1)) 7 0 example_gadget_chain 1 = Inr r2"
    unfolding r2_def by simp
  from first have "insertROPChain example_env example_cfg example_param ''f'' 0 [1]
      True (symbols (lowered r1)) 7 0 example_gadget_chain 1 = Inr r2 \<longrightarrow>
      set (versionedSymbols (lowered r2)) \<inter> set (versionedSymbols (lowered r1)) = {}"
    by (elim conjE)
  with run2 have "set (versionedSymbols (lowered r2)) \<inter> set (versionedSymbols (lowered r1)) = {}"
    by (rule rev_mp)
  then have again: "0 \<notin> set (versionedSymbols (lowered r2))"
    unfolding emitted by simp
  from emitted front used again show ?thesis
    unfolding r2_def r1_def by (intro conjI)
qed

section \<open>The continuation of a chain\<close>

lemma lower_step_grows:
  assumes "lower_step env param MBB isLast lbl e st = Inr st1"
  shows "\<exists>p. pushchain st1 = pushchain st @ [p]"
    and "successors st1 = successors st @ (case e of JMP_BLOCK target \<Rightarrow> [target] | _ \<Rightarrow> [])"
    and "\<exists>ls. blockLabels st1 = blockLabels st @ ls"
    and "resumeLabelRequired st1 = (resumeLabelRequired st \<or> (e = JMP_FALLTHROUGH \<and> \<not> isLast))"
    and "nextTemp st \<le> nextTemp st1"
proof -
  from assms obtain st' where e: "lower_elem env param MBB isLast lbl e st = Inr st'"
    and st1: "st1 = st'\<lparr>espoffset := espoffset st' - 4\<rparr>"
    by (rule lower_step_Inr)
  show "\<exists>p. pushchain st1 = pushchain st @ [p]"
    using e unfolding st1
    by (cases e) (auto simp: lower_defs split: prod.splits if_splits option.splits list.splits)
  show "successors st1 = successors st @ (case e of JMP_BLOCK target \<Rightarrow> [target] | _ \<Rightarrow> [])"
    using e unfolding st1
    by (cases e) (auto simp: lower_defs split: prod.splits if_splits option.splits list.splits)
  show "\<exists>ls. blockLabels st1 = blockLabels st @ ls"
    using e unfolding st1
    by (cases e) (auto simp: lower_defs split: prod.splits if_splits option.splits list.splits)
  show "resumeLabelRequired st1 = (resumeLabelRequired st \<or> (e = JMP_FALLTHROUGH \<and> \<not> isLast))"
    using e unfolding st1
    by (cases e) (auto simp: lower_defs split: prod.splits if_splits option.splits list.splits)
  show "nextTemp st \<le> nextTemp st1"
    using e unfolding st1
    by (cases e) (auto simp: lower_defs split: prod.splits if_splits option.splits list.splits)
qed

lemma lower_all_keeps_push:
  assumes "lower_all env param MBB isLast lbl es st = Inr st1" "p \<in> set (pushchain st)"
  shows "p \<in> set (pushchain st1)"
  by (rule lower_all_preserves [OF assms(1), where P = "\<lambda>s. p \<in> set (pushchain s)"])
    (use assms(2) lower_step_grows(1) in fastforce)+

lemma lower_all_keeps_blockLabel:
  assumes "lower_all env param MBB isLast lbl es st = Inr st1" "x \<in> set (blockLabels st)"
  shows "x \<in> set (blockLabels st1)"
  by (rule lower_all_preserves [OF assms(1), where P = "\<lambda>s. x \<in> set (blockLabels s)"])
    (use assms(2) lower_step_grows(3) in fastforce)+

lemma lower_all_keeps_successor:
  assumes "lower_all env param MBB isLast lbl es st = Inr st1" "x \<in> set (successors st)"
  shows "x \<in> set (successors st1)"
  by (rule lower_all_preserves [OF assms(1), where P = "\<lambda>s. x \<in> set (successors s)"])
    (use assms(2) lower_step_grows(2) in fastforce)+

lemma lower_all_successors:
  "lower_all env param MBB isLast lbl es st = Inr st1 \<Longrightarrow>
   set (successors st1) = set (successors st) \<union> {target. JMP_BLOCK target \<in> set es}"
proof (induction es arbitrary: st)
  case Nil
  then show ?case by simp
next
  case (Cons e es)
  from Cons.prems(1) obtain st' where
    step: "lower_step env param MBB isLast lbl e st = Inr st'" and
    rest: "lower_all env param MBB isLast lbl es st' = Inr st1"
    by (rule lower_all_Cons_Inr)
  have "set (successors st') = set (successors st) \<union> {target. e = JMP_BLOCK target}"
    unfolding lower_step_grows(2) [OF step] by (cases e) auto
  with Cons.IH [OF rest] show ?case by auto
qed

lemma lower_all_resumeLabelRequired:
  "lower_all env param MBB isLast lbl es st = Inr st1 \<Longrightarrow>
   resumeLabelRequired st1 = (resumeLabelRequired st \<or> (JMP_FALLTHROUGH \<in> set es \<and> \<not> isLast))"
proof (induction es arbitrary: st)
  case Nil
  then show ?case by simp
next
  case (Cons e es)
  from Cons.prems(1) obtain st' where
    step: "lower_step env param MBB isLast lbl e st = Inr st'" and
    rest: "lower_all env param MBB isLast lbl es st' = Inr st1"
    by (rule lower_all_Cons_Inr)
  from lower_step_grows(4) [OF step] Cons.IH [OF rest] show ?case by auto
qed

lemma find_the_element: "x \<in> set xs \<Longrightarrow> List.find (\<lambda>y. y = x) xs = Some x"
  by (induction xs) auto


lemma lower_step_JMP_FALLTHROUGH:
  assumes "lower_step env param MBB isLast lbl JMP_FALLTHROUGH st = Inr st1" "lbl \<noteq> None"
  shows "isLast \<Longrightarrow> Suc MBB \<in> set (successors st) \<Longrightarrow>
           (Suc MBB, lbl) \<in> set (blockLabels st1) \<and> (\<exists>opq. PUSH_LABEL opq lbl \<in> set (pushchain st1))"
    and "isLast \<Longrightarrow> Suc MBB \<notin> set (successors st) \<Longrightarrow> PUSH_IMM None 0 \<in> set (pushchain st1)"
    and "\<not> isLast \<Longrightarrow> \<exists>opq. PUSH_LABEL opq lbl \<in> set (pushchain st1)"
proof -
  have layout: "isLayoutSuccessor MBB = (\<lambda>other. other = Suc MBB)"
    by (simp add: fun_eq_iff isLayoutSuccessor_def)
  have found: "List.find (isLayoutSuccessor MBB) (successors st) = Some (Suc MBB)"
    if "Suc MBB \<in> set (successors st)"
    unfolding layout using that by (rule find_the_element)
  have missing: "List.find (isLayoutSuccessor MBB) (successors st) = None"
    if "Suc MBB \<notin> set (successors st)"
    using that by (auto simp: find_None_iff isLayoutSuccessor_def)
  show "isLast \<Longrightarrow> Suc MBB \<in> set (successors st) \<Longrightarrow>
           (Suc MBB, lbl) \<in> set (blockLabels st1) \<and> (\<exists>opq. PUSH_LABEL opq lbl \<in> set (pushchain st1))"
    using assms found
    by (auto simp: lower_step_def lower_defs split: if_splits)
  show "isLast \<Longrightarrow> Suc MBB \<notin> set (successors st) \<Longrightarrow> PUSH_IMM None 0 \<in> set (pushchain st1)"
    using assms missing
    by (auto simp: lower_step_def lower_defs split: if_splits)
  show "\<not> isLast \<Longrightarrow> \<exists>opq. PUSH_LABEL opq lbl \<in> set (pushchain st1)"
    using assms
    by (auto simp: lower_step_def lower_defs split: if_splits)
qed

lemma lower_all_fallthrough:
  assumes run: "lower_all env param MBB isLast lbl (early @ JMP_FALLTHROUGH # late) st = Inr st1"
    and lbl: "lbl \<noteq> None"
  shows "isLast \<Longrightarrow> Suc MBB \<in> set (successors st) \<or> JMP_BLOCK (Suc MBB) \<in> set early \<Longrightarrow>
           (Suc MBB, lbl) \<in> set (blockLabels st1) \<and> (\<exists>opq. PUSH_LABEL opq lbl \<in> set (pushchain st1))"
    and "isLast \<Longrightarrow> Suc MBB \<notin> set (successors st) \<Longrightarrow> JMP_BLOCK (Suc MBB) \<notin> set early \<Longrightarrow>
           PUSH_IMM None 0 \<in> set (pushchain st1)"
    and "\<not> isLast \<Longrightarrow> \<exists>opq. PUSH_LABEL opq lbl \<in> set (pushchain st1)"
proof -
  from run obtain sta where
    a: "lower_all env param MBB isLast lbl early st = Inr sta" and
    a': "lower_all env param MBB isLast lbl (JMP_FALLTHROUGH # late) sta = Inr st1"
    by (auto simp: lower_all_append split: sum.splits)
  from a' obtain stb where
    b: "lower_step env param MBB isLast lbl JMP_FALLTHROUGH sta = Inr stb" and
    c: "lower_all env param MBB isLast lbl late stb = Inr st1"
    by (rule lower_all_Cons_Inr)
  note keep = lower_all_keeps_push [OF c] lower_all_keeps_blockLabel [OF c]
  have reached: "set (successors sta) = set (successors st) \<union> {target. JMP_BLOCK target \<in> set early}"
    by (rule lower_all_successors [OF a])
  show "(Suc MBB, lbl) \<in> set (blockLabels st1) \<and> (\<exists>opq. PUSH_LABEL opq lbl \<in> set (pushchain st1))"
    if "isLast" "Suc MBB \<in> set (successors st) \<or> JMP_BLOCK (Suc MBB) \<in> set early"
  proof -
    from that(2) have "Suc MBB \<in> set (successors sta)"
      unfolding reached by auto
    from lower_step_JMP_FALLTHROUGH(1) [OF b lbl that(1) this] keep show ?thesis by blast
  qed
  show "PUSH_IMM None 0 \<in> set (pushchain st1)"
    if "isLast" "Suc MBB \<notin> set (successors st)" "JMP_BLOCK (Suc MBB) \<notin> set early"
  proof -
    from that(2,3) have "Suc MBB \<notin> set (successors sta)"
      unfolding reached by auto
    from lower_step_JMP_FALLTHROUGH(2) [OF b lbl that(1) this] keep show ?thesis by blast
  qed
  show "\<exists>opq. PUSH_LABEL opq lbl \<in> set (pushchain st1)" if "\<not> isLast"
    using lower_step_JMP_FALLTHROUGH(3) [OF b lbl that] keep by blast
qed


lemma lower_step_foreign_labels:
  assumes "lower_step env param MBB isLast lbl e st = Inr st1"
    and "\<forall>k. l = Some (TempSym k) \<longrightarrow> k < nextTemp st"
    and "\<forall>b. (b, l) \<notin> set (blockLabels st)"
    and "\<not> isLast \<or> l \<noteq> lbl"
    and "l \<noteq> None"
  shows "(\<forall>k. l = Some (TempSym k) \<longrightarrow> k < nextTemp st1) \<and> (\<forall>b. (b, l) \<notin> set (blockLabels st1))"
proof -
  from assms(1) obtain st' where e: "lower_elem env param MBB isLast lbl e st = Inr st'"
    and st1: "st1 = st'\<lparr>espoffset := espoffset st' - 4\<rparr>"
    by (rule lower_step_Inr)
  show ?thesis
    using e assms(2-) unfolding st1
    by (cases e) (auto simp: lower_defs split: prod.splits if_splits option.splits list.splits)
qed

lemma lower_all_foreign_labels:
  assumes "lower_all env param MBB isLast lbl es st = Inr st1"
    and "\<forall>k. l = Some (TempSym k) \<longrightarrow> k < nextTemp st"
    and "\<forall>b. (b, l) \<notin> set (blockLabels st)"
    and "\<not> isLast \<or> l \<noteq> lbl"
    and "l \<noteq> None"
  shows "\<forall>b. (b, l) \<notin> set (blockLabels st1)"
proof -
  have "(\<forall>k. l = Some (TempSym k) \<longrightarrow> k < nextTemp st1) \<and> (\<forall>b. (b, l) \<notin> set (blockLabels st1))"
    by (rule lower_all_preserves [OF assms(1), where
          P = "\<lambda>s. (\<forall>k. l = Some (TempSym k) \<longrightarrow> k < nextTemp s) \<and> (\<forall>b. (b, l) \<notin> set (blockLabels s))"])
      (use assms(2-) lower_step_foreign_labels in blast)+
  then show ?thesis by blast
qed

lemma chain_labels_props:
  assumes "chain_labels cfg funcName chain_id temp = (asChainLabel, asResumeLabel, temp1)"
  shows "asChainLabel \<noteq> None" "asResumeLabel \<noteq> None" "asChainLabel \<noteq> asResumeLabel"
    "\<forall>k. asResumeLabel = Some (TempSym k) \<longrightarrow> k < temp1"
    "\<forall>k. asChainLabel = Some (TempSym k) \<longrightarrow> k < temp1"
proof -
  have len: "length (fst (generateChainLabels funcName chain_id))
      \<noteq> length (snd (generateChainLabels funcName chain_id))"
    by (simp add: generateChainLabels_def Let_def)
  then have ne: "fst (generateChainLabels funcName chain_id) \<noteq> snd (generateChainLabels funcName chain_id)"
    by auto
  show "asChainLabel \<noteq> None" "asResumeLabel \<noteq> None"
    "\<forall>k. asResumeLabel = Some (TempSym k) \<longrightarrow> k < temp1"
    "\<forall>k. asChainLabel = Some (TempSym k) \<longrightarrow> k < temp1"
    using assms by (auto simp: chain_labels_def split: if_splits prod.splits)
  show "asChainLabel \<noteq> asResumeLabel"
    using assms ne by (auto simp: chain_labels_def split: if_splits prod.splits)
qed

lemma pushchain_code:
  assumes run: "insertROPChain env cfg param funcName MBB succs MI_has_next syms t temp c chain_id = Inr r"
    and p: "p \<in> set (pushchain (lowered r))"
  shows "set (compile env (symbols (lowered r)) p) \<subseteq> set (code r)"
proof -
  from run obtain asChainLabel asResumeLabel where
    code: "code r = emit_symver (symbols (lowered r)) (versionedSymbols (lowered r))
              @ emit_save env (savedRegs r) (espoffset (lowered r))
              @ [PutLabel asChainLabel]
              @ concat (map (compile env (symbols (lowered r))) (pushchain (lowered r)))
              @ emit_restore env (savedRegs r)
              @ [Ret]
              @ (if resumeLabelRequired (lowered r) then [PutLabel asResumeLabel] else [])
              @ (if flagSave c = SAVE_AFTER_EXEC then [Popf] else [])"
    by (rule insertROPChain_Inr)
  from p have "set (compile env (symbols (lowered r)) p)
      \<subseteq> set (concat (map (compile env (symbols (lowered r))) (pushchain (lowered r))))"
    by auto
  then show ?thesis unfolding code by auto
qed

lemma insertROPChain_fallthrough:
  assumes run: "insertROPChain env cfg param funcName MBB succs MI_has_next syms t temp c chain_id = Inr r"
    and ft: "with_fallthrough c = pre @ JMP_FALLTHROUGH # post"
    and labels: "chain_labels cfg funcName chain_id temp = (asChainLabel, asResumeLabel, temp1)"
  shows "isLastInstrInBlock c MI_has_next \<Longrightarrow>
           Suc MBB \<in> set succs \<or> JMP_BLOCK (Suc MBB) \<in> set post \<Longrightarrow>
           (Suc MBB, asResumeLabel) \<in> set (blockLabels (lowered r))
           \<and> (\<exists>opq. PUSH_LABEL opq asResumeLabel \<in> set (pushchain (lowered r)))
           \<and> PutLabel asResumeLabel \<notin> set (code r)"
    and "isLastInstrInBlock c MI_has_next \<Longrightarrow> Suc MBB \<notin> set succs \<Longrightarrow>
           JMP_BLOCK (Suc MBB) \<notin> set post \<Longrightarrow>
           PUSH_IMM None 0 \<in> set (pushchain (lowered r))
           \<and> PutLabel asResumeLabel \<notin> set (code r)"
    and "\<not> isLastInstrInBlock c MI_has_next \<Longrightarrow>
           (\<exists>opq. PUSH_LABEL opq asResumeLabel \<in> set (pushchain (lowered r)))
           \<and> (\<exists>front. code r = front @ [Ret, PutLabel asResumeLabel]
                           @ (if flagSave c = SAVE_AFTER_EXEC then [Popf] else [])
                  \<and> PutLabel asResumeLabel \<notin> set front)
           \<and> (\<forall>b. (b, asResumeLabel) \<notin> set (blockLabels (lowered r)))"
proof -
  let ?isLast = "isLastInstrInBlock c MI_has_next"
  let ?st0 = "initial_lowering c succs syms t temp1"
  from run labels have
    low: "lower_all env param MBB ?isLast asResumeLabel (rev (with_fallthrough c)) ?st0
            = Inr (lowered r)" and
    code: "code r = emit_symver (symbols (lowered r)) (versionedSymbols (lowered r))
              @ emit_save env (savedRegs r) (espoffset (lowered r))
              @ [PutLabel asChainLabel]
              @ concat (map (compile env (symbols (lowered r))) (pushchain (lowered r)))
              @ emit_restore env (savedRegs r)
              @ [Ret]
              @ (if resumeLabelRequired (lowered r) then [PutLabel asResumeLabel] else [])
              @ (if flagSave c = SAVE_AFTER_EXEC then [Popf] else [])"
    by (auto elim!: insertROPChain_Inr)
  note lab = chain_labels_props [OF labels]
  from ft have ft': "JMP_FALLTHROUGH \<in> set (rev (with_fallthrough c))" by simp
  from ft have order: "rev (with_fallthrough c) = rev post @ JMP_FALLTHROUGH # rev pre" by simp
  note low' = low [unfolded order]
  have required: "resumeLabelRequired (lowered r) = (\<not> ?isLast)"
    using lower_all_resumeLabelRequired [OF low] ft' by (simp add: initial_lowering_def)
  let ?front = "emit_symver (symbols (lowered r)) (versionedSymbols (lowered r))
              @ emit_save env (savedRegs r) (espoffset (lowered r))
              @ [PutLabel asChainLabel]
              @ concat (map (compile env (symbols (lowered r))) (pushchain (lowered r)))
              @ emit_restore env (savedRegs r)"
  have front: "PutLabel asResumeLabel \<notin> set ?front"
    using lab(3)
    by (auto simp: emit_symver_no_PutLabel emit_save_no_PutLabel emit_restore_no_PutLabel
        compile_no_PutLabel)
  have quiet: "PutLabel asResumeLabel \<notin> set (code r)" if "?isLast"
    using that required front unfolding code by auto
  have succs0: "successors ?st0 = succs" by (simp add: initial_lowering_def)
  show "(Suc MBB, asResumeLabel) \<in> set (blockLabels (lowered r))
           \<and> (\<exists>opq. PUSH_LABEL opq asResumeLabel \<in> set (pushchain (lowered r)))
           \<and> PutLabel asResumeLabel \<notin> set (code r)"
    if "?isLast" "Suc MBB \<in> set succs \<or> JMP_BLOCK (Suc MBB) \<in> set post"
  proof -
    from that(2) have "Suc MBB \<in> set (successors ?st0) \<or> JMP_BLOCK (Suc MBB) \<in> set (rev post)"
      unfolding succs0 by simp
    from lower_all_fallthrough(1) [OF low' lab(2) that(1) this] quiet [OF that(1)]
    show ?thesis by simp
  qed
  show "PUSH_IMM None 0 \<in> set (pushchain (lowered r)) \<and> PutLabel asResumeLabel \<notin> set (code r)"
    if "?isLast" "Suc MBB \<notin> set succs" "JMP_BLOCK (Suc MBB) \<notin> set post"
  proof -
    from that(2) have s: "Suc MBB \<notin> set (successors ?st0)"
      unfolding succs0 .
    from that(3) have j: "JMP_BLOCK (Suc MBB) \<notin> set (rev post)" by simp
    from lower_all_fallthrough(2) [OF low' lab(2) that(1) s j] quiet [OF that(1)]
    show ?thesis by simp
  qed
  show "(\<exists>opq. PUSH_LABEL opq asResumeLabel \<in> set (pushchain (lowered r)))
           \<and> (\<exists>front. code r = front @ [Ret, PutLabel asResumeLabel]
                           @ (if flagSave c = SAVE_AFTER_EXEC then [Popf] else [])
                  \<and> PutLabel asResumeLabel \<notin> set front)
           \<and> (\<forall>b. (b, asResumeLabel) \<notin> set (blockLabels (lowered r)))"
    if not_last: "\<not> ?isLast"
  proof (intro conjI)
    show "\<exists>opq. PUSH_LABEL opq asResumeLabel \<in> set (pushchain (lowered r))"
      by (rule lower_all_fallthrough(3) [OF low' lab(2) not_last])
    have "code r = ?front @ [Ret, PutLabel asResumeLabel]
                           @ (if flagSave c = SAVE_AFTER_EXEC then [Popf] else [])"
      unfolding code using required not_last by simp
    with front show "\<exists>front. code r = front @ [Ret, PutLabel asResumeLabel]
                           @ (if flagSave c = SAVE_AFTER_EXEC then [Popf] else [])
                  \<and> PutLabel asResumeLabel \<notin> set front"
      by blast
    show "\<forall>b. (b, asResumeLabel) \<notin> set (blockLabels (lowered r))"
      by (rule lower_all_foreign_labels [OF low])
        (use lab not_last in \<open>simp_all add: initial_lowering_def\<close>)
  qed
qed

text \<open>
  C1, as amended. Let \<^verbatim>\<open>insertROPChain\<close> return for a chain that, with the
  element appended for a chain without a jump, has \<open>JMP_FALLTHROUGH\<close> between the
  elements \<open>pre\<close> and \<open>post\<close>; the loop runs over the chain in reverse, so \<open>post\<close> is
  lowered before it. Let \<^verbatim>\<open>isLastInstrInBlock\<close> be as the code computes it: the
  anchor has no next node in its block, be it a debug instruction, and the flag mode
  is not \<^verbatim>\<open>SAVE_AFTER_EXEC\<close>.
  (a) If it holds and the next block in the layout is a successor of the block when
  the element is lowered (it was one on entry, or it is the target of a \<open>JMP_BLOCK\<close>
  of \<open>post\<close>), the resume label is put at the start of that block, a \<open>PUSH_LABEL\<close>
  of it is in the push chain and the label is not emitted at the insertion point.
  (b) If it holds and the next block is not a successor then, \<open>PUSH_IMM 0\<close> without
  opaque constant is in the push chain and the resume label is not emitted at the
  insertion point.
  (c) If it does not hold, a \<open>PUSH_LABEL\<close> of the resume label is in the push
  chain, the label is emitted right after \<^verbatim>\<open>ret\<close> (before the \<^verbatim>\<open>popf\<close> of
  \<^verbatim>\<open>SAVE_AFTER_EXEC\<close>), nowhere before it, and at the start of no block.
  The code of every element of the push chain is part of the emitted code.
\<close>

theorem JMP_FALLTHROUGH_resume_label:
  "insertROPChain env cfg param funcName MBB succs MI_has_next syms t temp c chain_id = Inr r
   \<and> with_fallthrough c = pre @ JMP_FALLTHROUGH # post
   \<and> chain_labels cfg funcName chain_id temp = (asChainLabel, asResumeLabel, temp1) \<longrightarrow>
     (isLastInstrInBlock c MI_has_next
        \<and> (Suc MBB \<in> set succs \<or> JMP_BLOCK (Suc MBB) \<in> set post) \<longrightarrow>
        (Suc MBB, asResumeLabel) \<in> set (blockLabels (lowered r))
        \<and> (\<exists>opq. PUSH_LABEL opq asResumeLabel \<in> set (pushchain (lowered r)))
        \<and> PutLabel asResumeLabel \<notin> set (code r))
   \<and> (isLastInstrInBlock c MI_has_next \<and> Suc MBB \<notin> set succs
        \<and> JMP_BLOCK (Suc MBB) \<notin> set post \<longrightarrow>
        PUSH_IMM None 0 \<in> set (pushchain (lowered r))
        \<and> PutLabel asResumeLabel \<notin> set (code r))
   \<and> (\<not> isLastInstrInBlock c MI_has_next \<longrightarrow>
        (\<exists>opq. PUSH_LABEL opq asResumeLabel \<in> set (pushchain (lowered r)))
        \<and> (\<exists>front. code r = front @ [Ret, PutLabel asResumeLabel]
                        @ (if flagSave c = SAVE_AFTER_EXEC then [Popf] else [])
               \<and> PutLabel asResumeLabel \<notin> set front)
        \<and> (\<forall>b. (b, asResumeLabel) \<notin> set (blockLabels (lowered r))))
   \<and> (\<forall>p\<in>set (pushchain (lowered r)). set (compile env (symbols (lowered r)) p) \<subseteq> set (code r))
   \<and> isLastInstrInBlock c MI_has_next = (\<not> MI_has_next \<and> flagSave c \<noteq> SAVE_AFTER_EXEC)"
proof (rule impI, elim conjE, intro conjI impI ballI)
  assume run: "insertROPChain env cfg param funcName MBB succs MI_has_next syms t temp c chain_id = Inr r"
    and ft: "with_fallthrough c = pre @ JMP_FALLTHROUGH # post"
    and labels: "chain_labels cfg funcName chain_id temp = (asChainLabel, asResumeLabel, temp1)"
  note cases = insertROPChain_fallthrough [OF run ft labels]
  {
    assume "isLastInstrInBlock c MI_has_next
        \<and> (Suc MBB \<in> set succs \<or> JMP_BLOCK (Suc MBB) \<in> set post)"
    then have a: "isLastInstrInBlock c MI_has_next"
      "Suc MBB \<in> set succs \<or> JMP_BLOCK (Suc MBB) \<in> set post" by simp_all
    from cases(1) [OF a]
    show "(Suc MBB, asResumeLabel) \<in> set (blockLabels (lowered r))"
      "\<exists>opq. PUSH_LABEL opq asResumeLabel \<in> set (pushchain (lowered r))"
      "PutLabel asResumeLabel \<notin> set (code r)"
      by simp_all
  }
  {
    assume "isLastInstrInBlock c MI_has_next \<and> Suc MBB \<notin> set succs
        \<and> JMP_BLOCK (Suc MBB) \<notin> set post"
    then have b: "isLastInstrInBlock c MI_has_next" "Suc MBB \<notin> set succs"
      "JMP_BLOCK (Suc MBB) \<notin> set post" by simp_all
    from cases(2) [OF b]
    show "PUSH_IMM None 0 \<in> set (pushchain (lowered r))"
      "PutLabel asResumeLabel \<notin> set (code r)"
      by simp_all
  }
  {
    assume c: "\<not> isLastInstrInBlock c MI_has_next"
    from cases(3) [OF c]
    show "\<exists>opq. PUSH_LABEL opq asResumeLabel \<in> set (pushchain (lowered r))"
      "\<exists>front. code r = front @ [Ret, PutLabel asResumeLabel]
                        @ (if flagSave c = SAVE_AFTER_EXEC then [Popf] else [])
               \<and> PutLabel asResumeLabel \<notin> set front"
      "\<forall>b. (b, asResumeLabel) \<notin> set (blockLabels (lowered r))"
      by simp_all
  }
  {
    fix p assume "p \<in> set (pushchain (lowered r))"
    with run show "set (compile env (symbols (lowered r)) p) \<subseteq> set (code r)"
      by (rule pushchain_code)
  }
  show "isLastInstrInBlock c MI_has_next = (\<not> MI_has_next \<and> flagSave c \<noteq> SAVE_AFTER_EXEC)"
    by (simp add: isLastInstrInBlock_def)
qed

theorem JMP_FALLTHROUGH_resume_label_witness:
  "(Suc 0, Some (NamedSym ''resume_f_chain_0''))
     \<in> set (blockLabels (lowered (projr
          (insertROPChain example_env example_cfg example_param ''f'' 0 [1] False
             example_syms 0 0 (example_imm_chain NOT_SAVED) 0))))
   \<and> (Suc 0, Some (NamedSym ''resume_f_chain_0''))
     \<in> set (blockLabels (lowered (projr
          (insertROPChain example_env example_cfg example_param ''f'' 0 [] False
             example_syms 0 0 (example_jump_chain [JMP_FALLTHROUGH, JMP_BLOCK 1]) 0))))
   \<and> PUSH_IMM None 0
     \<in> set (pushchain (lowered (projr
          (insertROPChain example_env example_cfg example_param ''f'' 0 [] False
             example_syms 0 0 (example_imm_chain NOT_SAVED) 0))))
   \<and> PutLabel (Some (NamedSym ''resume_f_chain_0''))
     \<notin> set (code (projr
          (insertROPChain example_env example_cfg example_param ''f'' 0 [] False
             example_syms 0 0 (example_imm_chain NOT_SAVED) 0)))
   \<and> PUSH_IMM None 0
     \<in> set (pushchain (lowered (projr
          (insertROPChain example_env example_cfg example_param ''f'' 0 [] False
             example_syms 0 0 (example_jump_chain [JMP_BLOCK 1, JMP_FALLTHROUGH]) 0))))
   \<and> (\<exists>front.
        code (projr
          (insertROPChain example_env example_cfg example_param ''f'' 0 [1] False
             example_syms 0 0 (example_imm_chain SAVE_AFTER_EXEC) 0))
        = front @ [Ret, PutLabel (Some (NamedSym ''resume_f_chain_0''))] @ [Popf]
        \<and> PutLabel (Some (NamedSym ''resume_f_chain_0'')) \<notin> set front)
   \<and> (\<exists>front.
        code (projr
          (insertROPChain example_env example_cfg example_param ''f'' 0 [1] True
             example_syms 0 0 (example_imm_chain NOT_SAVED) 0))
        = front @ [Ret, PutLabel (Some (NamedSym ''resume_f_chain_0''))] @ []
        \<and> PutLabel (Some (NamedSym ''resume_f_chain_0'')) \<notin> set front)
   \<and> (Suc 0, Some (NamedSym ''resume_f_chain_0''))
     \<notin> set (blockLabels (lowered (projr
          (insertROPChain example_env example_cfg example_param ''f'' 0 [1] True
             example_syms 0 0 (example_imm_chain NOT_SAVED) 0))))"
proof -
  let ?ins = "\<lambda>succs has_next c. insertROPChain example_env example_cfg example_param ''f'' 0
      succs has_next example_syms 0 0 c 0"
  let ?chainLabel = "Some (NamedSym ''f_chain_0'')"
  let ?resumeLabel = "Some (NamedSym ''resume_f_chain_0'')"
  let ?imm = example_imm_chain
  let ?late = "example_jump_chain [JMP_FALLTHROUGH, JMP_BLOCK 1]"
  let ?early = "example_jump_chain [JMP_BLOCK 1, JMP_FALLTHROUGH]"
  note defs = insert_defs example_defs example_imm_chain_def example_jump_chain_def
  define ra where "ra = projr (?ins [1] False (?imm NOT_SAVED))"
  define ra' where "ra' = projr (?ins [] False ?late)"
  define rb where "rb = projr (?ins [] False (?imm NOT_SAVED))"
  define rb' where "rb' = projr (?ins [] False ?early)"
  define rc where "rc = projr (?ins [1] False (?imm SAVE_AFTER_EXEC))"
  define rc' where "rc' = projr (?ins [1] True (?imm NOT_SAVED))"
  have run_a: "?ins [1] False (?imm NOT_SAVED) = Inr ra" unfolding ra_def by (simp add: defs)
  have run_a': "?ins [] False ?late = Inr ra'" unfolding ra'_def by (simp add: defs)
  have run_b: "?ins [] False (?imm NOT_SAVED) = Inr rb" unfolding rb_def by (simp add: defs)
  have run_b': "?ins [] False ?early = Inr rb'" unfolding rb'_def by (simp add: defs)
  have run_c: "?ins [1] False (?imm SAVE_AFTER_EXEC) = Inr rc" unfolding rc_def by (simp add: defs)
  have run_c': "?ins [1] True (?imm NOT_SAVED) = Inr rc'" unfolding rc'_def by (simp add: defs)
  have ft: "with_fallthrough (?imm mode) = [IMM_VALUE 7] @ JMP_FALLTHROUGH # []" for mode
    by (simp add: with_fallthrough_def example_imm_chain_def)
  have ft_late: "with_fallthrough ?late = [] @ JMP_FALLTHROUGH # [JMP_BLOCK 1]"
    by (simp add: with_fallthrough_def example_jump_chain_def)
  have ft_early: "with_fallthrough ?early = [JMP_BLOCK 1] @ JMP_FALLTHROUGH # []"
    by (simp add: with_fallthrough_def example_jump_chain_def)
  have labels: "chain_labels example_cfg ''f'' 0 0 = (?chainLabel, ?resumeLabel, 0)"
    by (simp add: chain_labels_def generateChainLabels_def string_of_int_def example_cfg_def Let_def)
  have case_a: "isLastInstrInBlock (?imm NOT_SAVED) False
      \<and> (Suc 0 \<in> set [1] \<or> JMP_BLOCK (Suc 0) \<in> set [])"
    by (simp add: isLastInstrInBlock_def example_imm_chain_def)
  have case_a': "isLastInstrInBlock ?late False
      \<and> (Suc 0 \<in> set [] \<or> JMP_BLOCK (Suc 0) \<in> set [JMP_BLOCK 1])"
    by (simp add: isLastInstrInBlock_def example_jump_chain_def)
  have case_b: "isLastInstrInBlock (?imm NOT_SAVED) False \<and> Suc 0 \<notin> set []
      \<and> JMP_BLOCK (Suc 0) \<notin> set []"
    by (simp add: isLastInstrInBlock_def example_imm_chain_def)
  have case_b': "isLastInstrInBlock ?early False \<and> Suc 0 \<notin> set []
      \<and> JMP_BLOCK (Suc 0) \<notin> set []"
    by (simp add: isLastInstrInBlock_def example_jump_chain_def)
  have case_c: "\<not> isLastInstrInBlock (?imm SAVE_AFTER_EXEC) False"
    by (simp add: isLastInstrInBlock_def example_imm_chain_def)
  have case_c': "\<not> isLastInstrInBlock (?imm NOT_SAVED) True"
    by (simp add: isLastInstrInBlock_def example_imm_chain_def)
  have mode_c: "flagSave (?imm SAVE_AFTER_EXEC) = SAVE_AFTER_EXEC"
    and mode_c': "flagSave (?imm NOT_SAVED) \<noteq> SAVE_AFTER_EXEC"
    by (simp_all add: example_imm_chain_def)
  note a = JMP_FALLTHROUGH_resume_label [where env = example_env and cfg = example_cfg
      and param = example_param and funcName = "''f''" and MBB = 0 and succs = "[1]"
      and MI_has_next = False and syms = example_syms and t = 0 and temp = 0 and chain_id = 0
      and c = "?imm NOT_SAVED" and r = ra and asChainLabel = ?chainLabel
      and asResumeLabel = ?resumeLabel and ?temp1.0 = 0
      and pre = "[IMM_VALUE 7]" and post = "[]",
      THEN mp, OF conjI [OF run_a conjI [OF ft labels]]]
  note a' = JMP_FALLTHROUGH_resume_label [where env = example_env and cfg = example_cfg
      and param = example_param and funcName = "''f''" and MBB = 0 and succs = "[]"
      and MI_has_next = False and syms = example_syms and t = 0 and temp = 0 and chain_id = 0
      and c = ?late and r = ra' and asChainLabel = ?chainLabel
      and asResumeLabel = ?resumeLabel and ?temp1.0 = 0
      and pre = "[]" and post = "[JMP_BLOCK 1]",
      THEN mp, OF conjI [OF run_a' conjI [OF ft_late labels]]]
  note b = JMP_FALLTHROUGH_resume_label [where env = example_env and cfg = example_cfg
      and param = example_param and funcName = "''f''" and MBB = 0 and succs = "[]"
      and MI_has_next = False and syms = example_syms and t = 0 and temp = 0 and chain_id = 0
      and c = "?imm NOT_SAVED" and r = rb and asChainLabel = ?chainLabel
      and asResumeLabel = ?resumeLabel and ?temp1.0 = 0
      and pre = "[IMM_VALUE 7]" and post = "[]",
      THEN mp, OF conjI [OF run_b conjI [OF ft labels]]]
  note b' = JMP_FALLTHROUGH_resume_label [where env = example_env and cfg = example_cfg
      and param = example_param and funcName = "''f''" and MBB = 0 and succs = "[]"
      and MI_has_next = False and syms = example_syms and t = 0 and temp = 0 and chain_id = 0
      and c = ?early and r = rb' and asChainLabel = ?chainLabel
      and asResumeLabel = ?resumeLabel and ?temp1.0 = 0
      and pre = "[JMP_BLOCK 1]" and post = "[]",
      THEN mp, OF conjI [OF run_b' conjI [OF ft_early labels]]]
  note c = JMP_FALLTHROUGH_resume_label [where env = example_env and cfg = example_cfg
      and param = example_param and funcName = "''f''" and MBB = 0 and succs = "[1]"
      and MI_has_next = False and syms = example_syms and t = 0 and temp = 0 and chain_id = 0
      and c = "?imm SAVE_AFTER_EXEC" and r = rc and asChainLabel = ?chainLabel
      and asResumeLabel = ?resumeLabel and ?temp1.0 = 0
      and pre = "[IMM_VALUE 7]" and post = "[]",
      THEN mp, OF conjI [OF run_c conjI [OF ft labels]]]
  note c' = JMP_FALLTHROUGH_resume_label [where env = example_env and cfg = example_cfg
      and param = example_param and funcName = "''f''" and MBB = 0 and succs = "[1]"
      and MI_has_next = True and syms = example_syms and t = 0 and temp = 0 and chain_id = 0
      and c = "?imm NOT_SAVED" and r = rc' and asChainLabel = ?chainLabel
      and asResumeLabel = ?resumeLabel and ?temp1.0 = 0
      and pre = "[IMM_VALUE 7]" and post = "[]",
      THEN mp, OF conjI [OF run_c' conjI [OF ft labels]]]
  from a [THEN conjunct1, THEN mp, OF case_a]
  have one: "(Suc 0, ?resumeLabel) \<in> set (blockLabels (lowered ra))"
    by (rule conjunct1)
  from a' [THEN conjunct1, THEN mp, OF case_a']
  have one': "(Suc 0, ?resumeLabel) \<in> set (blockLabels (lowered ra'))"
    by (rule conjunct1)
  from b [THEN conjunct2, THEN conjunct1, THEN mp, OF case_b]
  have two: "PUSH_IMM None 0 \<in> set (pushchain (lowered rb))"
    and three: "PutLabel ?resumeLabel \<notin> set (code rb)"
    by (rule conjunct1, rule conjunct2)
  from b' [THEN conjunct2, THEN conjunct1, THEN mp, OF case_b']
  have two': "PUSH_IMM None 0 \<in> set (pushchain (lowered rb'))"
    by (rule conjunct1)
  from c [THEN conjunct2, THEN conjunct2, THEN conjunct1, THEN mp, OF case_c]
  have "\<exists>front. code rc = front @ [Ret, PutLabel ?resumeLabel]
          @ (if flagSave (?imm SAVE_AFTER_EXEC) = SAVE_AFTER_EXEC then [Popf] else [])
        \<and> PutLabel ?resumeLabel \<notin> set front"
    by (elim conjE)
  then have four: "\<exists>front. code rc = front @ [Ret, PutLabel ?resumeLabel] @ [Popf]
        \<and> PutLabel ?resumeLabel \<notin> set front"
    unfolding mode_c by (simp only: simp_thms if_True)
  note last = c' [THEN conjunct2, THEN conjunct2, THEN conjunct1, THEN mp, OF case_c']
  from last
  have "\<exists>front. code rc' = front @ [Ret, PutLabel ?resumeLabel]
          @ (if flagSave (?imm NOT_SAVED) = SAVE_AFTER_EXEC then [Popf] else [])
        \<and> PutLabel ?resumeLabel \<notin> set front"
    by (elim conjE)
  then have five: "\<exists>front. code rc' = front @ [Ret, PutLabel ?resumeLabel] @ []
        \<and> PutLabel ?resumeLabel \<notin> set front"
    using mode_c' by (simp only: simp_thms if_False)
  from last have "\<forall>b. (b, ?resumeLabel) \<notin> set (blockLabels (lowered rc'))"
    by (elim conjE)
  then have six: "(Suc 0, ?resumeLabel) \<notin> set (blockLabels (lowered rc'))"
    by (rule spec)
  from one one' two three two' four five six show ?thesis
    unfolding ra_def ra'_def rb_def rb'_def rc_def rc'_def by (intro conjI)
qed

text \<open>
  The claim as stated fails on three inputs. (1) A chain in mode
  \<^verbatim>\<open>SAVE_AFTER_EXEC\<close>: the anchor is the last instruction of block 0 and block 1,
  the next in the layout, is a successor, yet no label is put at the start of a
  block; the resume label is emitted after \<^verbatim>\<open>ret\<close>, followed by \<^verbatim>\<open>popf\<close>.
  (2) A block whose only real instruction is followed by a debug instruction: the
  driver replaces the instruction by a chain whose anchor has a next node, so the
  resume label is emitted after \<^verbatim>\<open>ret\<close>, before the debug instruction, and block 1
  gets no label. (3) A block without successors and a chain in which a jump to the
  next block follows the fall-through: lowering the jump makes the next block a
  successor first, so the resume label is pushed and put at the start of block 1,
  and no \<open>0\<close> is pushed.
\<close>

theorem JMP_FALLTHROUGH_resume_label_counterexample:
  "map_sum id (blockLabels \<circ> lowered)
     (insertROPChain example_env example_cfg example_param ''f'' 0 [1] False example_syms 0 0
        (example_imm_chain SAVE_AFTER_EXEC) 0) = Inr []
   \<and> map_sum id code
     (insertROPChain example_env example_cfg example_param ''f'' 0 [1] False example_syms 0 0
        (example_imm_chain SAVE_AFTER_EXEC) 0)
     = Inr [PutLabel (Some (NamedSym ''f_chain_0'')),
            Pushf,
            Push (LabelOp (Some (NamedSym ''resume_f_chain_0''))),
            Push (Imm 7),
            Ret,
            PutLabel (Some (NamedSym ''resume_f_chain_0'')),
            Popf]
   \<and> map_sum id (\<lambda>s. map instrs (basicBlocks (MF s)))
     (obfuscate_block example_env example_host example_cfg example_param
        (example_driver (example_function [X86Instr 1 False 0, X86Instr 0 True 0])) 0)
     = Inr [[Lowered (PutLabel (Some (NamedSym ''f_chain_0''))),
             Lowered (Push (LabelOp (Some (NamedSym ''resume_f_chain_0'')))),
             Lowered (Push (Imm 7)),
             Lowered Ret,
             Lowered (PutLabel (Some (NamedSym ''resume_f_chain_0''))),
             X86Instr 0 True 0],
            []]
   \<and> map_sum id (\<lambda>r. (pushchain (lowered r), blockLabels (lowered r)))
     (insertROPChain example_env example_cfg example_param ''f'' 0 [] False example_syms 0 0
        (example_jump_chain [JMP_FALLTHROUGH, JMP_BLOCK 1]) 0)
     = Inr ([PUSH_LABEL None (Some (TempSym 0)),
             PUSH_LABEL None (Some (NamedSym ''resume_f_chain_0''))],
            [(1, Some (TempSym 0)), (1, Some (NamedSym ''resume_f_chain_0''))])"
proof (intro conjI)
  show "map_sum id (blockLabels \<circ> lowered)
     (insertROPChain example_env example_cfg example_param ''f'' 0 [1] False example_syms 0 0
        (example_imm_chain SAVE_AFTER_EXEC) 0) = Inr []"
    by (simp add: insert_defs example_defs example_imm_chain_def)
  show "map_sum id code
     (insertROPChain example_env example_cfg example_param ''f'' 0 [1] False example_syms 0 0
        (example_imm_chain SAVE_AFTER_EXEC) 0)
     = Inr [PutLabel (Some (NamedSym ''f_chain_0'')),
            Pushf,
            Push (LabelOp (Some (NamedSym ''resume_f_chain_0''))),
            Push (Imm 7),
            Ret,
            PutLabel (Some (NamedSym ''resume_f_chain_0'')),
            Popf]"
    by (simp add: insert_defs example_defs example_imm_chain_def)
  show "map_sum id (\<lambda>s. map instrs (basicBlocks (MF s)))
     (obfuscate_block example_env example_host example_cfg example_param
        (example_driver (example_function [X86Instr 1 False 0, X86Instr 0 True 0])) 0)
     = Inr [[Lowered (PutLabel (Some (NamedSym ''f_chain_0''))),
             Lowered (Push (LabelOp (Some (NamedSym ''resume_f_chain_0'')))),
             Lowered (Push (Imm 7)),
             Lowered Ret,
             Lowered (PutLabel (Some (NamedSym ''resume_f_chain_0''))),
             X86Instr 0 True 0],
            []]"
    by code_simp
  show "map_sum id (\<lambda>r. (pushchain (lowered r), blockLabels (lowered r)))
     (insertROPChain example_env example_cfg example_param ''f'' 0 [] False example_syms 0 0
        (example_jump_chain [JMP_FALLTHROUGH, JMP_BLOCK 1]) 0)
     = Inr ([PUSH_LABEL None (Some (TempSym 0)),
             PUSH_LABEL None (Some (NamedSym ''resume_f_chain_0''))],
            [(1, Some (TempSym 0)), (1, Some (NamedSym ''resume_f_chain_0''))])"
    by (simp add: insert_defs example_defs example_jump_chain_def)
qed

section \<open>The immediate of ESP_OFFSET\<close>

lemma int64_sub_in_range:
  "- (2 ^ 63) \<le> a - b \<Longrightarrow> a - b < 2 ^ 63 \<Longrightarrow> int64_sub a b = a - b"
proof -
  assume "- (2 ^ 63) \<le> a - b" "a - b < 2 ^ 63"
  then have fits: "signed_take_bit 63 (a - b) = a - b"
    by (rule signed_take_bit_int_eq_self)
  have "(word_of_int a - word_of_int b :: 64 word) = word_of_int (a - b)"
    by simp
  then have "int64_sub a b = sint (word_of_int (a - b) :: 64 word)"
    by (simp only: int64_sub_def)
  also have "\<dots> = signed_take_bit 63 (a - b)"
    by (simp only: sint_sbintrunc') simp
  finally show ?thesis
    unfolding fits .
qed

lemma lower_step_espoffset:
  assumes "lower_step env param MBB isLast lbl e st = Inr st1"
  shows "espoffset st1 = espoffset st - 4"
proof -
  from assms obtain st' where e: "lower_elem env param MBB isLast lbl e st = Inr st'"
    and st1: "st1 = st'\<lparr>espoffset := espoffset st' - 4\<rparr>"
    by (rule lower_step_Inr)
  show ?thesis
    using e unfolding st1
    by (cases e) (auto simp: lower_defs split: prod.splits if_splits option.splits list.splits)
qed

lemma lower_all_espoffset:
  "lower_all env param MBB isLast lbl es st = Inr st1 \<Longrightarrow>
   espoffset st1 = espoffset st - 4 * int (length es)"
proof (induction es arbitrary: st)
  case Nil
  then show ?case by simp
next
  case (Cons e es)
  from Cons.prems(1) obtain st' where
    step: "lower_step env param MBB isLast lbl e st = Inr st'" and
    rest: "lower_all env param MBB isLast lbl es st' = Inr st1"
    by (rule lower_all_Cons_Inr)
  from lower_step_espoffset [OF step] Cons.IH [OF rest] show ?case by simp
qed

lemma ESP_OFFSET_after_ESP_PUSH:
  assumes "lower_step env param MBB isLast lbl (ESP_PUSH esp_id) st = Inr st1"
    and "lower_all env param MBB isLast lbl mids st1 = Inr st2"
    and "ESP_PUSH esp_id \<notin> set mids"
  shows "lower_step env param MBB isLast lbl (ESP_OFFSET esp_id v) st2
          = Inr (st2\<lparr>pushchain := pushchain st2 @ [PUSH_IMM None (int64_sub v (espoffset st))],
                    espoffset := espoffset st2 - 4\<rparr>)"
proof -
  have "espOffsetMap st1 esp_id = Some (espoffset st)"
    using lower_step_espOffsetMap [OF assms(1)] by simp
  moreover have "espOffsetMap st2 esp_id = espOffsetMap st1 esp_id"
    using assms(2,3) by (rule lower_all_keeps_recorded)
  ultimately show ?thesis
    by (simp add: lower_step_def emplace_back_def)
qed

lemma ESP_OFFSET_in_code:
  assumes run: "insertROPChain env cfg param funcName MBB succs MI_has_next syms t temp c chain_id = Inr r"
    and shape: "chain c = pre @ ESP_OFFSET esp_id v # mid @ ESP_PUSH esp_id # post"
    and fresh: "ESP_PUSH esp_id \<notin> set mid"
    and cursor: "cursor = (if flagSave c = SAVE_AFTER_EXEC then - 4 else 0)
                   - 4 * int (length post)
                   - (if hasUnconditionalJump c \<or> hasConditionalJump c then 0 else 4)"
  shows "PUSH_IMM None (int64_sub v cursor) \<in> set (pushchain (lowered r))"
    and "Push (Imm (int64_sub v cursor)) \<in> set (code r)"
proof -
  from run obtain lbl' temp1 where
    low: "lower_all env param MBB (isLastInstrInBlock c MI_has_next) lbl'
       (rev (with_fallthrough c)) (initial_lowering c succs syms t temp1) = Inr (lowered r)"
    by (auto elim: insertROPChain_Inr)
  let ?low = "lower_all env param MBB (isLastInstrInBlock c MI_has_next) lbl'"
  let ?step = "lower_step env param MBB (isLastInstrInBlock c MI_has_next) lbl'"
  let ?st0 = "initial_lowering c succs syms t temp1"
  define post' where "post' = post @ (if hasUnconditionalJump c \<or> hasConditionalJump c
                                       then [] else [JMP_FALLTHROUGH])"
  have elems: "rev (with_fallthrough c)
      = rev post' @ ESP_PUSH esp_id # (rev mid @ ESP_OFFSET esp_id v # rev pre)"
    using shape by (simp add: with_fallthrough_def post'_def)
  from low obtain sA where a: "?low (rev post') ?st0 = Inr sA"
    and a': "?low (ESP_PUSH esp_id # (rev mid @ ESP_OFFSET esp_id v # rev pre)) sA = Inr (lowered r)"
    unfolding elems by (auto simp: lower_all_append split: sum.splits)
  from a' obtain sB where b: "?step (ESP_PUSH esp_id) sA = Inr sB"
    and b': "?low (rev mid @ ESP_OFFSET esp_id v # rev pre) sB = Inr (lowered r)"
    by (rule lower_all_Cons_Inr)
  from b' obtain sC where c: "?low (rev mid) sB = Inr sC"
    and c': "?low (ESP_OFFSET esp_id v # rev pre) sC = Inr (lowered r)"
    by (auto simp: lower_all_append split: sum.splits)
  from c' obtain sD where d: "?step (ESP_OFFSET esp_id v) sC = Inr sD"
    and d': "?low (rev pre) sD = Inr (lowered r)"
    by (rule lower_all_Cons_Inr)
  have "espoffset sA = cursor"
    using lower_all_espoffset [OF a] unfolding cursor
    by (simp add: initial_lowering_def post'_def)
  moreover from fresh have "ESP_PUSH esp_id \<notin> set (rev mid)" by simp
  ultimately have "sD = sC\<lparr>pushchain := pushchain sC @ [PUSH_IMM None (int64_sub v cursor)],
                    espoffset := espoffset sC - 4\<rparr>"
    using ESP_OFFSET_after_ESP_PUSH [OF b c, of v] d by simp
  then have "PUSH_IMM None (int64_sub v cursor) \<in> set (pushchain sD)" by simp
  with d' show in_chain: "PUSH_IMM None (int64_sub v cursor) \<in> set (pushchain (lowered r))"
    by (rule lower_all_keeps_push)
  from pushchain_code [OF run in_chain]
  show "Push (Imm (int64_sub v cursor)) \<in> set (code r)" by simp
qed

text \<open>
  C3. (1) Once \<open>ESP_PUSH esp_id\<close> has been processed in a state \<open>st\<close>, and whatever
  elements other than an \<open>ESP_PUSH\<close> of the same id have been processed since, the
  iteration for \<open>ESP_OFFSET esp_id v\<close> returns, and all it does is to append to the
  push chain a \<open>PUSH_IMM\<close>, without opaque constant, of \<open>v\<close> minus the stack cursor
  of \<open>st\<close> (and to move the cursor on); the difference is that of \<^verbatim>\<open>int64_t\<close>, the
  mathematical one whenever that fits into 64 bits. (2) When nothing is recorded
  under \<open>esp_id\<close>, the element is a fatal error, and so is the loop that meets it.
  (3) When \<^verbatim>\<open>insertROPChain\<close> returns, every \<open>ESP_OFFSET esp_id\<close> of the chain is
  followed in the chain by an \<open>ESP_PUSH esp_id\<close>, which the loop, running over the
  chain in reverse, has processed before it. (4) When it returns, the
  \<open>PUSH_IMM\<close> of \<open>v\<close> minus the cursor recorded at the nearest \<open>ESP_PUSH esp_id\<close>
  that follows in the chain is in the push chain, and the push of that immediate is
  in the emitted code; the cursor is minus four times the number of elements
  lowered before that \<open>ESP_PUSH\<close>, the saved flags of \<^verbatim>\<open>SAVE_AFTER_EXEC\<close> and the
  appended \<open>JMP_FALLTHROUGH\<close> included.
\<close>

theorem ESP_OFFSET_uses_recorded_cursor:
  "(lower_step env param MBB isLast lbl (ESP_PUSH esp_id) st = Inr st1
      \<and> lower_all env param MBB isLast lbl mids st1 = Inr st2
      \<and> ESP_PUSH esp_id \<notin> set mids
    \<longrightarrow> lower_step env param MBB isLast lbl (ESP_OFFSET esp_id v) st2
          = Inr (st2\<lparr>pushchain := pushchain st2 @ [PUSH_IMM None (int64_sub v (espoffset st))],
                    espoffset := espoffset st2 - 4\<rparr>)
        \<and> (- (2 ^ 63) \<le> v - espoffset st \<and> v - espoffset st < 2 ^ 63
            \<longrightarrow> int64_sub v (espoffset st) = v - espoffset st))
   \<and> (espOffsetMap st esp_id = None
    \<longrightarrow> lower_elem env param MBB isLast lbl (ESP_OFFSET esp_id v) st
          = Inl ESP_OFFSET_without_ESP_PUSH
        \<and> lower_all env param MBB isLast lbl (ESP_OFFSET esp_id v # rest) st
          = Inl ESP_OFFSET_without_ESP_PUSH)
   \<and> (insertROPChain env cfg param funcName MBB succs MI_has_next syms t temp c chain_id = Inr r
      \<and> chain c = pre @ ESP_OFFSET esp_id v # post
    \<longrightarrow> ESP_PUSH esp_id \<in> set post)
   \<and> (insertROPChain env cfg param funcName MBB succs MI_has_next syms t temp c chain_id = Inr r
      \<and> chain c = pre @ ESP_OFFSET esp_id v # mid @ ESP_PUSH esp_id # post
      \<and> ESP_PUSH esp_id \<notin> set mid
      \<and> cursor = (if flagSave c = SAVE_AFTER_EXEC then - 4 else 0)
                   - 4 * int (length post)
                   - (if hasUnconditionalJump c \<or> hasConditionalJump c then 0 else 4)
    \<longrightarrow> PUSH_IMM None (int64_sub v cursor) \<in> set (pushchain (lowered r))
        \<and> Push (Imm (int64_sub v cursor)) \<in> set (code r))"
proof (intro conjI impI)
  assume a: "lower_step env param MBB isLast lbl (ESP_PUSH esp_id) st = Inr st1
      \<and> lower_all env param MBB isLast lbl mids st1 = Inr st2
      \<and> ESP_PUSH esp_id \<notin> set mids"
  then have a1: "lower_step env param MBB isLast lbl (ESP_PUSH esp_id) st = Inr st1"
    and a2: "lower_all env param MBB isLast lbl mids st1 = Inr st2"
    and a3: "ESP_PUSH esp_id \<notin> set mids"
    by simp_all
  show "lower_step env param MBB isLast lbl (ESP_OFFSET esp_id v) st2
          = Inr (st2\<lparr>pushchain := pushchain st2 @ [PUSH_IMM None (int64_sub v (espoffset st))],
                    espoffset := espoffset st2 - 4\<rparr>)"
    using a1 a2 a3 by (rule ESP_OFFSET_after_ESP_PUSH)
next
  assume "- (2 ^ 63) \<le> v - espoffset st \<and> v - espoffset st < 2 ^ 63"
  then show "int64_sub v (espoffset st) = v - espoffset st"
    using int64_sub_in_range by blast
next
  assume "espOffsetMap st esp_id = None"
  then show "lower_elem env param MBB isLast lbl (ESP_OFFSET esp_id v) st
          = Inl ESP_OFFSET_without_ESP_PUSH"
    by simp
next
  assume "espOffsetMap st esp_id = None"
  then show "lower_all env param MBB isLast lbl (ESP_OFFSET esp_id v # rest) st
          = Inl ESP_OFFSET_without_ESP_PUSH"
    by (simp add: lower_step_def)
next
  assume a: "insertROPChain env cfg param funcName MBB succs MI_has_next syms t temp c chain_id = Inr r
      \<and> chain c = pre @ ESP_OFFSET esp_id v # post"
  then obtain lbl' temp1 where
    run: "lower_all env param MBB (isLastInstrInBlock c MI_has_next) lbl'
       (rev (with_fallthrough c)) (initial_lowering c succs syms t temp1) = Inr (lowered r)"
    by (auto elim: insertROPChain_Inr)
  from a have "\<exists>post'. with_fallthrough c = pre @ ESP_OFFSET esp_id v # post'
      \<and> (post' = post \<or> post' = post @ [JMP_FALLTHROUGH])"
    by (cases "hasUnconditionalJump c \<or> hasConditionalJump c")
      (simp_all add: with_fallthrough_def)
  then obtain post' where
    elems: "with_fallthrough c = pre @ ESP_OFFSET esp_id v # post'" and
    post': "post' = post \<or> post' = post @ [JMP_FALLTHROUGH]"
    by blast
  have "espOffsetMap (initial_lowering c succs syms t temp1) = Map.empty"
    by (simp add: initial_lowering_def)
  with run elems have "ESP_PUSH esp_id \<in> set post'"
    using ESP_OFFSET_needs_ESP_PUSH by metis
  with post' show "ESP_PUSH esp_id \<in> set post" by auto
next
  assume a: "insertROPChain env cfg param funcName MBB succs MI_has_next syms t temp c chain_id = Inr r
      \<and> chain c = pre @ ESP_OFFSET esp_id v # mid @ ESP_PUSH esp_id # post
      \<and> ESP_PUSH esp_id \<notin> set mid
      \<and> cursor = (if flagSave c = SAVE_AFTER_EXEC then - 4 else 0)
                   - 4 * int (length post)
                   - (if hasUnconditionalJump c \<or> hasConditionalJump c then 0 else 4)"
  then have a1: "insertROPChain env cfg param funcName MBB succs MI_has_next syms t temp c chain_id = Inr r"
    and a2: "chain c = pre @ ESP_OFFSET esp_id v # mid @ ESP_PUSH esp_id # post"
    and a3: "ESP_PUSH esp_id \<notin> set mid"
    and a4: "cursor = (if flagSave c = SAVE_AFTER_EXEC then - 4 else 0)
                   - 4 * int (length post)
                   - (if hasUnconditionalJump c \<or> hasConditionalJump c then 0 else 4)"
    by simp_all
  show "PUSH_IMM None (int64_sub v cursor) \<in> set (pushchain (lowered r))"
    using a1 a2 a3 a4 by (rule ESP_OFFSET_in_code(1))
  show "Push (Imm (int64_sub v cursor)) \<in> set (code r)"
    using a1 a2 a3 a4 by (rule ESP_OFFSET_in_code(2))
qed

theorem ESP_OFFSET_uses_recorded_cursor_witness:
  "lower_step example_env example_param 0 False None (ESP_OFFSET 1 100)
     (projr (lower_all example_env example_param 0 False None [ESP_PUSH 1, IMM_VALUE 5]
        example_lowering))
   = Inr ((projr (lower_all example_env example_param 0 False None [ESP_PUSH 1, IMM_VALUE 5]
          example_lowering))
        \<lparr>pushchain := [PUSH_EFLAGS, PUSH_ESP, PUSH_IMM None 5, PUSH_IMM None 104],
         espoffset := - 16\<rparr>)
   \<and> lower_all example_env example_param 0 False None [ESP_OFFSET 2 100, IMM_VALUE 5]
       example_lowering = Inl ESP_OFFSET_without_ESP_PUSH
   \<and> \<not> isl (insertROPChain example_env example_cfg example_param ''f'' 0 [1] True
          example_syms 0 0 example_esp_chain 0)
   \<and> chain example_esp_chain = [] @ ESP_OFFSET 1 100 # [IMM_VALUE 5, ESP_PUSH 1]
   \<and> ESP_PUSH 1 \<in> set [IMM_VALUE 5, ESP_PUSH 1]
   \<and> PUSH_IMM None 104
       \<in> set (pushchain (lowered (projr
            (insertROPChain example_env example_cfg example_param ''f'' 0 [1] True
               example_syms 0 0 example_esp_chain 0))))
   \<and> Push (Imm 104)
       \<in> set (code (projr
            (insertROPChain example_env example_cfg example_param ''f'' 0 [1] True
               example_syms 0 0 example_esp_chain 0)))
   \<and> Push (Imm (- 9223372036854775805))
       \<in> set (code (projr
            (insertROPChain example_env example_cfg example_param ''f'' 0 [1] True
               example_syms 0 0
               (example_esp_chain\<lparr>chain := [ESP_OFFSET 1 9223372036854775807, ESP_PUSH 1]\<rparr>) 0)))"
proof -
  let ?low = "lower_all example_env example_param 0 False None"
  let ?ins = "insertROPChain example_env example_cfg example_param ''f'' 0 [1] True
      example_syms 0 0"
  let ?big = "example_esp_chain\<lparr>chain := [ESP_OFFSET 1 9223372036854775807, ESP_PUSH 1]\<rparr>"
  note claim = ESP_OFFSET_uses_recorded_cursor
  define st2 where "st2 = projr (?low [ESP_PUSH 1, IMM_VALUE 5] example_lowering)"
  define st1 where "st1 = projr (lower_step example_env example_param 0 False None (ESP_PUSH 1)
      example_lowering)"
  have push: "lower_step example_env example_param 0 False None (ESP_PUSH 1)
      example_lowering = Inr st1"
    unfolding st1_def by (simp add: lower_step_def)
  have mid: "?low [IMM_VALUE 5] st1 = Inr st2"
    unfolding st2_def using push by (simp add: lower_step_def lower_defs example_defs)
  have cursor: "espoffset example_lowering = - 4"
    by (simp add: example_lowering_def initial_lowering_def)
  have chain2: "pushchain st2 = [PUSH_EFLAGS, PUSH_ESP, PUSH_IMM None 5]"
    and off2: "espoffset st2 = - 12"
    unfolding st2_def
    by (simp_all add: lower_step_def lower_defs example_defs example_lowering_def
        initial_lowering_def)
  have small: "int64_sub 100 (- 4) = 104"
    by (simp add: int64_sub_def)
  have "lower_step example_env example_param 0 False None (ESP_OFFSET 1 100) st2
      = Inr (st2\<lparr>pushchain := pushchain st2
                    @ [PUSH_IMM None (int64_sub 100 (espoffset example_lowering))],
                espoffset := espoffset st2 - 4\<rparr>)"
    using claim [where st = example_lowering and ?st1.0 = st1
        and ?st2.0 = st2 and mids = "[IMM_VALUE 5]" and esp_id = 1 and v = 100
        and env = example_env and param = example_param and MBB = 0 and isLast = False
        and lbl = None]
      push mid by simp
  then have one: "lower_step example_env example_param 0 False None (ESP_OFFSET 1 100) st2
      = Inr (st2\<lparr>pushchain := [PUSH_EFLAGS, PUSH_ESP, PUSH_IMM None 5, PUSH_IMM None 104],
                espoffset := - 16\<rparr>)"
    unfolding cursor small chain2 off2 by simp
  have unrecorded: "espOffsetMap example_lowering 2 = None"
    by (simp add: example_lowering_def initial_lowering_def)
  have two: "?low [ESP_OFFSET 2 100, IMM_VALUE 5] example_lowering
      = Inl ESP_OFFSET_without_ESP_PUSH"
    using claim [where st = example_lowering and esp_id = 2
        and v = 100 and rest = "[IMM_VALUE 5]" and env = example_env and param = example_param
        and MBB = 0 and isLast = False and lbl = None]
      unrecorded by blast
  define r where "r = projr (?ins example_esp_chain 0)"
  have run: "?ins example_esp_chain 0 = Inr r"
    unfolding r_def by (simp add: insert_defs example_defs example_esp_chain_def)
  have shape: "chain example_esp_chain = [] @ ESP_OFFSET 1 100 # [IMM_VALUE 5, ESP_PUSH 1]"
    by (simp add: example_esp_chain_def)
  have three: "ESP_PUSH 1 \<in> set [IMM_VALUE 5, ESP_PUSH 1]"
    using claim [where c = example_esp_chain and r = r
        and pre = "[]" and post = "[IMM_VALUE 5, ESP_PUSH 1]" and esp_id = 1 and v = 100]
      run shape by blast
  have shape4: "chain example_esp_chain = [] @ ESP_OFFSET 1 100 # [IMM_VALUE 5] @ ESP_PUSH 1 # []"
    by (simp add: example_esp_chain_def)
  have cur4: "- 4 = (if flagSave example_esp_chain = SAVE_AFTER_EXEC then - 4 else 0)
                   - 4 * int (length ([] :: ChainElem list))
                   - (if hasUnconditionalJump example_esp_chain
                          \<or> hasConditionalJump example_esp_chain then 0 else (4 :: int))"
    by (simp add: example_esp_chain_def)
  have fresh4: "ESP_PUSH 1 \<notin> set [IMM_VALUE 5]" by simp
  from claim [where c = example_esp_chain and r = r and env = example_env
        and cfg = example_cfg and param = example_param and funcName = "''f''" and MBB = 0
        and succs = "[1]" and MI_has_next = True and syms = example_syms and t = 0 and temp = 0
        and chain_id = 0 and pre = "[]" and mid = "[IMM_VALUE 5]" and post = "[]"
        and esp_id = 1 and v = 100 and cursor = "- 4",
        THEN conjunct2, THEN conjunct2, THEN conjunct2, THEN mp,
        OF conjI [OF run conjI [OF shape4 conjI [OF fresh4 cur4]]]]
  have four: "PUSH_IMM None 104 \<in> set (pushchain (lowered r))"
    and five: "Push (Imm 104) \<in> set (code r)"
    unfolding small by (rule conjunct1, rule conjunct2)
  define rb where "rb = projr (?ins ?big 0)"
  have run_b: "?ins ?big 0 = Inr rb"
    unfolding rb_def by (simp add: insert_defs example_defs example_esp_chain_def)
  have shape_b: "chain ?big = [] @ ESP_OFFSET 1 9223372036854775807 # [] @ ESP_PUSH 1 # []"
    by simp
  have cur_b: "- 4 = (if flagSave ?big = SAVE_AFTER_EXEC then - 4 else 0)
                   - 4 * int (length ([] :: ChainElem list))
                   - (if hasUnconditionalJump ?big \<or> hasConditionalJump ?big then 0 else (4 :: int))"
    by (simp add: example_esp_chain_def)
  have fresh_b: "ESP_PUSH 1 \<notin> set []" by simp
  have wraps: "int64_sub 9223372036854775807 (- 4) = - 9223372036854775805"
    by (simp add: int64_sub_def)
  from claim [where c = ?big and r = rb and env = example_env
        and cfg = example_cfg and param = example_param and funcName = "''f''" and MBB = 0
        and succs = "[1]" and MI_has_next = True and syms = example_syms and t = 0 and temp = 0
        and chain_id = 0 and pre = "[]" and mid = "[]" and post = "[]"
        and esp_id = 1 and v = 9223372036854775807 and cursor = "- 4",
        THEN conjunct2, THEN conjunct2, THEN conjunct2, THEN mp,
        OF conjI [OF run_b conjI [OF shape_b conjI [OF fresh_b cur_b]]]]
  have six: "Push (Imm (- 9223372036854775805)) \<in> set (code rb)"
    unfolding wraps by (rule conjunct2)
  have ok: "\<not> isl (?ins example_esp_chain 0)"
    unfolding run by simp
  from one two ok shape three four five six show ?thesis
    unfolding st2_def r_def rb_def by (intro conjI)
qed

section \<open>Gadget addresses and branch divergence\<close>

lemma subseq_set: "subseq xs ys \<Longrightarrow> set xs \<subseteq> set ys"
  by (auto elim: list_emb_set)

lemma subseq_distinct: "subseq xs ys \<Longrightarrow> distinct ys \<Longrightarrow> distinct xs"
proof (induction rule: list_emb.induct)
  case (list_emb_Nil ys)
  show ?case by simp
next
  case (list_emb_Cons xs ys y)
  then show ?case by simp
next
  case (list_emb_Cons2 x y xs ys)
  from list_emb_Cons2.hyps(2) have "set xs \<subseteq> set ys" by (rule subseq_set)
  with list_emb_Cons2 show ?case by auto
qed

lemma std_sample_length:
  "length (fst (std_sample g t xs n)) = min n (length xs)"
proof (induction xs arbitrary: t n)
  case Nil
  show ?case by simp
next
  case (Cons x xs)
  show ?case
  proof (cases "n = 0")
    case True
    then show ?thesis by simp
  next
    case False
    show ?thesis
    proof (cases "g t mod Suc (length xs) < n")
      case True
      with False Cons.IH [of "Suc t" "n - 1"] show ?thesis
        by (simp add: split_beta)
    next
      case no: False
      have "g t mod Suc (length xs) \<le> length xs"
        using mod_less_divisor [of "Suc (length xs)" "g t"] by simp
      with no have "n \<le> length xs" by linarith
      with False no Cons.IH [of "Suc t" n] show ?thesis by simp
    qed
  qed
qed

lemma std_sample_subseq:
  "subseq (fst (std_sample g t xs n)) xs"
proof (induction xs arbitrary: t n)
  case Nil
  show ?case by simp
next
  case (Cons x xs)
  show ?case
    using Cons.IH [of "Suc t" "n - 1"] Cons.IH [of "Suc t" n]
    by (auto simp: split_beta intro: list_emb_Cons)
qed

lemma std_sample_distinct:
  "distinct xs \<Longrightarrow> distinct (fst (std_sample g t xs n))"
  using std_sample_subseq [of g t xs n] by (rule subseq_distinct)

lemma lower_GADGET_result:
  assumes "lower_GADGET env param g st = Inr st1"
  shows "fst (sample_addresses env param g (Suc (tick st))) \<noteq> []"
    and "\<exists>opq. pushchain st1 = pushchain st
            @ [PUSH_GADGET opq (getRandomSymbol env (tick st))
                 (hd (map (relative_offset (Address (symbols st (getRandomSymbol env (tick st)))))
                        (fst (sample_addresses env param g (Suc (tick st))))))]
          \<and> (\<not> opaquePredicateEnabled param \<longrightarrow> opq = None)
          \<and> (opaquePredicateEnabled param \<and> 1 < num_branches_of param (addresses g) \<longrightarrow>
               (\<exists>t'. opq = Some (Compose
                  (ValueAdjustor EAX
                     (findValues env
                        (BranchingOpaqueConstant32 t' EAX (num_branches_of param (addresses g))
                           (opaqueBranchDivergenceAlgorithm param)) EAX)
                     (map (relative_offset (Address (symbols st (getRandomSymbol env (tick st)))))
                        (fst (sample_addresses env param g (Suc (tick st))))))
                  (BranchingOpaqueConstant32 t' EAX (num_branches_of param (addresses g))
                     (opaqueBranchDivergenceAlgorithm param)))))
          \<and> (opaquePredicateEnabled param \<and> num_branches_of param (addresses g) \<le> 1 \<longrightarrow>
               (\<exists>t'. opq = Some (Compose
                  (ValueAdjustor EAX
                     (findValues env
                        (OpaqueConstant32 t' EAX (opaqueConstantAlgorithm param)) EAX)
                     (map (relative_offset (Address (symbols st (getRandomSymbol env (tick st)))))
                        (fst (sample_addresses env param g (Suc (tick st))))))
                  (OpaqueConstant32 t' EAX (opaqueConstantAlgorithm param)))))"
proof -
  let ?s = "getRandomSymbol env (tick st)"
  let ?sampled = "fst (sample_addresses env param g (Suc (tick st)))"
  let ?k = "num_branches_of param (addresses g)"
  have len: "length ?sampled = min ?k (length (addresses g))"
    by (simp add: sample_addresses_def std_sample_length)
  have k: "?k \<le> length (addresses g)" if "1 < ?k"
    using that by (auto simp: num_branches_of_def split: if_splits)
  from assms show "?sampled \<noteq> []"
    by (auto simp: lower_GADGET_def Let_def split_beta split: list.splits)
  from assms len k show "\<exists>opq. pushchain st1 = pushchain st
            @ [PUSH_GADGET opq ?s (hd (map (relative_offset (Address (symbols st ?s))) ?sampled))]
          \<and> (\<not> opaquePredicateEnabled param \<longrightarrow> opq = None)
          \<and> (opaquePredicateEnabled param \<and> 1 < ?k \<longrightarrow>
               (\<exists>t'. opq = Some (Compose
                  (ValueAdjustor EAX
                     (findValues env
                        (BranchingOpaqueConstant32 t' EAX ?k
                           (opaqueBranchDivergenceAlgorithm param)) EAX)
                     (map (relative_offset (Address (symbols st ?s))) ?sampled))
                  (BranchingOpaqueConstant32 t' EAX ?k
                     (opaqueBranchDivergenceAlgorithm param)))))
          \<and> (opaquePredicateEnabled param \<and> ?k \<le> 1 \<longrightarrow>
               (\<exists>t'. opq = Some (Compose
                  (ValueAdjustor EAX
                     (findValues env
                        (OpaqueConstant32 t' EAX (opaqueConstantAlgorithm param)) EAX)
                     (map (relative_offset (Address (symbols st ?s))) ?sampled))
                  (OpaqueConstant32 t' EAX (opaqueConstantAlgorithm param)))))"
    by (auto simp: lower_GADGET_def Let_def split_beta emplace_back_def
        split: list.splits if_splits)
qed

text \<open>
  C7, as amended. The number of branches is \<open>min max |addresses|\<close> with branch
  divergence enabled and \<open>1\<close> without; the sample has as many addresses as the
  smaller of that number and \<open>|addresses|\<close> (with divergence enabled: exactly that
  number), is a subsequence of the address list (no position is taken twice) and
  is distinct when the addresses are. When \<^verbatim>\<open>lower_GADGET\<close> returns, the sample is
  not empty, one \<open>PUSH_GADGET\<close> is appended whose anchor is the symbol drawn and
  whose offset is the first of the offsets, all taken relative to the address of
  that one anchor, and: with opaque predicates disabled, no opaque construct is
  attached; with opaque predicates enabled and more than one branch, the construct
  is the composition of a value adjustor, from the values of a branching opaque
  constant to the offsets, with that branching constant, made for as many choices as
  there are branches; with opaque predicates enabled and at most one branch, an
  ordinary opaque constant takes the place of the branching one.
\<close>

theorem GADGET_sampling_and_opaque:
  "length (fst (sample_addresses env param g t))
     = min (num_branches_of param (addresses g)) (length (addresses g))
   \<and> (opaqueBranchDivergenceEnabled param \<longrightarrow>
        num_branches_of param (addresses g)
          = min (unat (opaqueBranchDivergenceMaxBranches param)) (length (addresses g))
        \<and> length (fst (sample_addresses env param g t)) = num_branches_of param (addresses g))
   \<and> (\<not> opaqueBranchDivergenceEnabled param \<longrightarrow> num_branches_of param (addresses g) = 1)
   \<and> subseq (fst (sample_addresses env param g t)) (addresses g)
   \<and> (distinct (addresses g) \<longrightarrow> distinct (fst (sample_addresses env param g t)))
   \<and> (lower_GADGET env param g st = Inr st1 \<longrightarrow>
        fst (sample_addresses env param g (Suc (tick st))) \<noteq> []
        \<and> (\<exists>opq. pushchain st1 = pushchain st
            @ [PUSH_GADGET opq (getRandomSymbol env (tick st))
                 (hd (map (relative_offset (Address (symbols st (getRandomSymbol env (tick st)))))
                        (fst (sample_addresses env param g (Suc (tick st))))))]
          \<and> (\<not> opaquePredicateEnabled param \<longrightarrow> opq = None)
          \<and> (opaquePredicateEnabled param \<and> 1 < num_branches_of param (addresses g) \<longrightarrow>
               (\<exists>t'. opq = Some (Compose
                  (ValueAdjustor EAX
                     (findValues env
                        (BranchingOpaqueConstant32 t' EAX (num_branches_of param (addresses g))
                           (opaqueBranchDivergenceAlgorithm param)) EAX)
                     (map (relative_offset (Address (symbols st (getRandomSymbol env (tick st)))))
                        (fst (sample_addresses env param g (Suc (tick st))))))
                  (BranchingOpaqueConstant32 t' EAX (num_branches_of param (addresses g))
                     (opaqueBranchDivergenceAlgorithm param)))))
          \<and> (opaquePredicateEnabled param \<and> num_branches_of param (addresses g) \<le> 1 \<longrightarrow>
               (\<exists>t'. opq = Some (Compose
                  (ValueAdjustor EAX
                     (findValues env
                        (OpaqueConstant32 t' EAX (opaqueConstantAlgorithm param)) EAX)
                     (map (relative_offset (Address (symbols st (getRandomSymbol env (tick st)))))
                        (fst (sample_addresses env param g (Suc (tick st))))))
                  (OpaqueConstant32 t' EAX (opaqueConstantAlgorithm param)))))))"
proof (intro conjI impI)
  show len: "length (fst (sample_addresses env param g t))
     = min (num_branches_of param (addresses g)) (length (addresses g))"
    by (simp add: sample_addresses_def std_sample_length)
  show "subseq (fst (sample_addresses env param g t)) (addresses g)"
    by (simp add: sample_addresses_def std_sample_subseq)
  {
    assume "opaqueBranchDivergenceEnabled param"
    then show k: "num_branches_of param (addresses g)
          = min (unat (opaqueBranchDivergenceMaxBranches param)) (length (addresses g))"
      by (simp add: num_branches_of_def)
    then show "length (fst (sample_addresses env param g t)) = num_branches_of param (addresses g)"
      unfolding len by simp
  }
  {
    assume "\<not> opaqueBranchDivergenceEnabled param"
    then show "num_branches_of param (addresses g) = 1"
      by (simp add: num_branches_of_def)
  }
  {
    assume "distinct (addresses g)"
    then show "distinct (fst (sample_addresses env param g t))"
      by (simp add: sample_addresses_def std_sample_distinct)
  }
  assume run: "lower_GADGET env param g st = Inr st1"
  show "fst (sample_addresses env param g (Suc (tick st))) \<noteq> []"
    using run by (rule lower_GADGET_result)
  show "\<exists>opq. pushchain st1 = pushchain st
            @ [PUSH_GADGET opq (getRandomSymbol env (tick st))
                 (hd (map (relative_offset (Address (symbols st (getRandomSymbol env (tick st)))))
                        (fst (sample_addresses env param g (Suc (tick st))))))]
          \<and> (\<not> opaquePredicateEnabled param \<longrightarrow> opq = None)
          \<and> (opaquePredicateEnabled param \<and> 1 < num_branches_of param (addresses g) \<longrightarrow>
               (\<exists>t'. opq = Some (Compose
                  (ValueAdjustor EAX
                     (findValues env
                        (BranchingOpaqueConstant32 t' EAX (num_branches_of param (addresses g))
                           (opaqueBranchDivergenceAlgorithm param)) EAX)
                     (map (relative_offset (Address (symbols st (getRandomSymbol env (tick st)))))
                        (fst (sample_addresses env param g (Suc (tick st))))))
                  (BranchingOpaqueConstant32 t' EAX (num_branches_of param (addresses g))
                     (opaqueBranchDivergenceAlgorithm param)))))
          \<and> (opaquePredicateEnabled param \<and> num_branches_of param (addresses g) \<le> 1 \<longrightarrow>
               (\<exists>t'. opq = Some (Compose
                  (ValueAdjustor EAX
                     (findValues env
                        (OpaqueConstant32 t' EAX (opaqueConstantAlgorithm param)) EAX)
                     (map (relative_offset (Address (symbols st (getRandomSymbol env (tick st)))))
                        (fst (sample_addresses env param g (Suc (tick st))))))
                  (OpaqueConstant32 t' EAX (opaqueConstantAlgorithm param)))))"
    using run by (rule lower_GADGET_result)
qed

theorem GADGET_sampling_and_opaque_witness:
  "length (fst (sample_addresses example_env example_divergence_param example_gadget4 1)) = 2
   \<and> distinct (fst (sample_addresses example_env example_divergence_param example_gadget4 1))
   \<and> fst (sample_addresses example_env example_divergence_param example_gadget4
            (Suc (tick example_start))) \<noteq> []
   \<and> pushchain (projr (lower_GADGET example_env example_divergence_param example_gadget4
         example_start))
     = [PUSH_GADGET
          (Some (Compose (ValueAdjustor EAX [0, 1] [256, 1024])
             (BranchingOpaqueConstant32 5 EAX 2 ''addreg'')))
          0 256]"
proof -
  define r where "r = projr (lower_GADGET example_env example_divergence_param example_gadget4
      example_start)"
  note T = GADGET_sampling_and_opaque [where env = example_env
      and param = example_divergence_param and g = example_gadget4 and t = 1
      and st = example_start and ?st1.0 = r]
  have on: "opaqueBranchDivergenceEnabled example_divergence_param"
    by (simp add: example_divergence_param_def example_param_def)
  have k: "min (unat (opaqueBranchDivergenceMaxBranches example_divergence_param))
      (length (addresses example_gadget4)) = 2"
    by (simp add: example_divergence_param_def example_param_def example_gadget4_def)
  have different: "distinct (addresses example_gadget4)"
    by (simp add: example_gadget4_def)
  have "\<not> isl (lower_GADGET example_env example_divergence_param example_gadget4 example_start)"
    by code_simp
  then have run: "lower_GADGET example_env example_divergence_param example_gadget4 example_start
      = Inr r"
    unfolding r_def by simp
  from T [THEN conjunct2, THEN conjunct1, THEN mp, OF on]
  have one: "length (fst (sample_addresses example_env example_divergence_param example_gadget4 1)) = 2"
    unfolding k by (elim conjE) (simp only:)
  from T [THEN conjunct2, THEN conjunct2, THEN conjunct2, THEN conjunct2, THEN conjunct1,
      THEN mp, OF different]
  have two: "distinct (fst (sample_addresses example_env example_divergence_param example_gadget4 1))" .
  from T [THEN conjunct2, THEN conjunct2, THEN conjunct2, THEN conjunct2, THEN conjunct2,
      THEN mp, OF run]
  have three: "fst (sample_addresses example_env example_divergence_param example_gadget4
            (Suc (tick example_start))) \<noteq> []"
    by (rule conjunct1)
  have four: "pushchain r = [PUSH_GADGET
          (Some (Compose (ValueAdjustor EAX [0, 1] [256, 1024])
             (BranchingOpaqueConstant32 5 EAX 2 ''addreg'')))
          0 256]"
    unfolding r_def by code_simp
  from one two three four show ?thesis
    unfolding r_def by (intro conjI)
qed

text \<open>
  The claim as stated fails with branch divergence enabled: with opaque predicates
  disabled the push has no opaque construct at all, and for a gadget with a single
  address the construct is built from an ordinary opaque constant, not a branching
  one.
\<close>

theorem GADGET_opaque_construct_counterexample:
  "map_sum id pushchain
     (lower_GADGET example_env (example_divergence_param\<lparr>opaquePredicateEnabled := False\<rparr>)
        example_gadget4 example_start)
     = Inr [PUSH_GADGET None 0 256]
   \<and> map_sum id pushchain
     (lower_GADGET example_env example_divergence_param \<lparr>addresses = [0x1100]\<rparr> example_start)
     = Inr [PUSH_GADGET
              (Some (Compose (ValueAdjustor EAX [4096] [256]) (OpaqueConstant32 2 EAX ''mov'')))
              0 256]"
  by code_simp

section \<open>Merging chains\<close>

lemma mode_join_assoc: "mode_join (mode_join a b) c = mode_join a (mode_join b c)"
  by (cases a; cases b; cases c) (simp_all add: mode_join_def)

lemma mode_join_commute: "mode_join a b = mode_join b a"
  by (cases a; cases b) (simp_all add: mode_join_def)

lemma mode_rank_join: "mode_rank (mode_join a b) = max (mode_rank a) (mode_rank b)"
  by (simp add: mode_join_def max_def)

text \<open>
  C4, as amended. Two chains can be merged exactly when neither has a jump flag
  set. The merged chain has the elements of the first followed by those of the
  second, so its length is the sum of the lengths, and its flag mode is the greater
  of the two in the order \<open>NOT_SAVED < SAVE_BEFORE_EXEC < SAVE_AFTER_EXEC\<close>. Merging
  is associative, and chains without a jump stay mergeable when merged. Exchanging
  the two chains leaves the flag mode, the jump flags and the length of the merged
  chain as they are, and mergeability is symmetric.
\<close>

theorem merge_of_chains:
  "(canMerge a b \<longleftrightarrow>
      \<not> hasConditionalJump a \<and> \<not> hasUnconditionalJump a
      \<and> \<not> hasConditionalJump b \<and> \<not> hasUnconditionalJump b)
   \<and> chain (merge a b) = chain a @ chain b
   \<and> length (chain (merge a b)) = length (chain a) + length (chain b)
   \<and> mode_rank (flagSave (merge a b)) = max (mode_rank (flagSave a)) (mode_rank (flagSave b))
   \<and> merge (merge a b) c = merge a (merge b c)
   \<and> (canMerge a b \<and> canMerge b c \<longrightarrow> canMerge (merge a b) c \<and> canMerge a (merge b c))
   \<and> flagSave (merge a b) = flagSave (merge b a)
   \<and> hasConditionalJump (merge a b) = hasConditionalJump (merge b a)
   \<and> hasUnconditionalJump (merge a b) = hasUnconditionalJump (merge b a)
   \<and> length (chain (merge a b)) = length (chain (merge b a))
   \<and> canMerge a b = canMerge b a"
proof (intro conjI impI)
  show "canMerge a b \<longleftrightarrow>
      \<not> hasConditionalJump a \<and> \<not> hasUnconditionalJump a
      \<and> \<not> hasConditionalJump b \<and> \<not> hasUnconditionalJump b"
    by (simp add: canMerge_def)
  show "chain (merge a b) = chain a @ chain b"
    by (simp add: merge_def)
  show "length (chain (merge a b)) = length (chain a) + length (chain b)"
    by (simp add: merge_def)
  show "mode_rank (flagSave (merge a b)) = max (mode_rank (flagSave a)) (mode_rank (flagSave b))"
    by (simp add: merge_def mode_rank_join)
  show "merge (merge a b) c = merge a (merge b c)"
    by (simp add: merge_def mode_join_assoc)
  show "flagSave (merge a b) = flagSave (merge b a)"
    by (simp add: merge_def mode_join_commute)
  show "hasConditionalJump (merge a b) = hasConditionalJump (merge b a)"
    by (auto simp: merge_def)
  show "hasUnconditionalJump (merge a b) = hasUnconditionalJump (merge b a)"
    by (auto simp: merge_def)
  show "length (chain (merge a b)) = length (chain (merge b a))"
    by (simp add: merge_def)
  show "canMerge a b = canMerge b a"
    by (auto simp: canMerge_def)
  assume "canMerge a b \<and> canMerge b c"
  then show "canMerge (merge a b) c" "canMerge a (merge b c)"
    by (simp_all add: canMerge_def merge_def)
qed

theorem merge_of_chains_witness:
  "canMerge (example_imm_chain NOT_SAVED) example_esp_chain
   \<and> canMerge example_esp_chain (example_imm_chain SAVE_BEFORE_EXEC)
   \<and> canMerge (merge (example_imm_chain NOT_SAVED) example_esp_chain)
        (example_imm_chain SAVE_BEFORE_EXEC)
   \<and> canMerge (example_imm_chain NOT_SAVED)
        (merge example_esp_chain (example_imm_chain SAVE_BEFORE_EXEC))"
proof -
  have ab: "canMerge (example_imm_chain NOT_SAVED) example_esp_chain"
    by (simp add: canMerge_def example_imm_chain_def example_esp_chain_def)
  have bc: "canMerge example_esp_chain (example_imm_chain SAVE_BEFORE_EXEC)"
    by (simp add: canMerge_def example_imm_chain_def example_esp_chain_def)
  note T = merge_of_chains [where a = "example_imm_chain NOT_SAVED" and b = example_esp_chain
      and c = "example_imm_chain SAVE_BEFORE_EXEC"]
  from T [THEN conjunct2, THEN conjunct2, THEN conjunct2, THEN conjunct2, THEN conjunct2,
      THEN conjunct1, THEN mp, OF conjI [OF ab bc]] ab bc
  show ?thesis by (intro conjI) (elim conjE, assumption)+
qed

text \<open>
  The claim as stated fails: merging is not commutative, since the elements of the
  first chain come first.
\<close>

theorem merge_commutative_counterexample:
  "canMerge (example_imm_chain NOT_SAVED) example_esp_chain
   \<and> canMerge example_esp_chain (example_imm_chain NOT_SAVED)
   \<and> chain (merge (example_imm_chain NOT_SAVED) example_esp_chain)
       = [IMM_VALUE 7, ESP_OFFSET 1 100, IMM_VALUE 5, ESP_PUSH 1]
   \<and> chain (merge example_esp_chain (example_imm_chain NOT_SAVED))
       = [ESP_OFFSET 1 100, IMM_VALUE 5, ESP_PUSH 1, IMM_VALUE 7]
   \<and> merge (example_imm_chain NOT_SAVED) example_esp_chain
       \<noteq> merge example_esp_chain (example_imm_chain NOT_SAVED)"
  by (simp add: canMerge_def merge_def example_imm_chain_def example_esp_chain_def)


section \<open>The driver: flushing the pending chain\<close>

lemma putLabelInMBB_fields:
  "processed (putLabelInMBB MBB s x) = processed s"
  "obfuscated (putLabelInMBB MBB s x) = obfuscated s"
  "instr_stat (putLabelInMBB MBB s x) = instr_stat s"
  "prevMI (putLabelInMBB MBB s x) = prevMI s"
  "chain0 (putLabelInMBB MBB s x) = chain0 s"
  "chainID (putLabelInMBB MBB s x) = chainID s"
  "BA (putLabelInMBB MBB s x) = BA s"
  "engine (putLabelInMBB MBB s x) = engine s"
  "temps (putLabelInMBB MBB s x) = temps s"
  "getName (MF (putLabelInMBB MBB s x)) = getName (MF s)"
  "length (basicBlocks (MF (putLabelInMBB MBB s x))) = length (basicBlocks (MF s))"
  by (auto simp: putLabelInMBB_def split: prod.splits)

lemma putLabelInMBB_behind:
  "prevMI s \<noteq> None \<Longrightarrow> behind (putLabelInMBB MBB s x) = behind s"
  by (auto simp: putLabelInMBB_def split: prod.splits)

lemma putLabelInMBB_before:
  "\<exists>labels. before (putLabelInMBB MBB s x) = labels @ before s \<and> (\<forall>m \<in> set labels. \<not> snd m)"
  by (cases x) (auto simp: putLabelInMBB_def)



lemma putLabelInMBB_erase:
  "set (erase_deleted s) \<subseteq> set (erase_deleted (putLabelInMBB MBB s x))"
  by (cases x) (auto simp: putLabelInMBB_def erase_deleted_def)

lemma put_labels_simps:
  "put_labels MBB [] s = s"
  "put_labels MBB (x # ls) s = put_labels MBB ls (putLabelInMBB MBB s x)"
  by (simp_all add: put_labels_def)

lemma put_labels_fields:
  "processed (put_labels MBB ls s) = processed s"
  "obfuscated (put_labels MBB ls s) = obfuscated s"
  "instr_stat (put_labels MBB ls s) = instr_stat s"
  "prevMI (put_labels MBB ls s) = prevMI s"
  "chain0 (put_labels MBB ls s) = chain0 s"
  "chainID (put_labels MBB ls s) = chainID s"
  "BA (put_labels MBB ls s) = BA s"
  "engine (put_labels MBB ls s) = engine s"
  "temps (put_labels MBB ls s) = temps s"
  "getName (MF (put_labels MBB ls s)) = getName (MF s)"
  "length (basicBlocks (MF (put_labels MBB ls s))) = length (basicBlocks (MF s))"
  by (induction ls arbitrary: s; simp add: put_labels_simps putLabelInMBB_fields)+

lemma put_labels_behind:
  "prevMI s \<noteq> None \<Longrightarrow> behind (put_labels MBB ls s) = behind s"
  by (induction ls arbitrary: s)
    (simp_all add: put_labels_simps putLabelInMBB_behind putLabelInMBB_fields)

lemma put_labels_before:
  "\<exists>labels. before (put_labels MBB ls s) = labels @ before s \<and> (\<forall>m \<in> set labels. \<not> snd m)"
proof (induction ls arbitrary: s)
  case Nil
  show ?case by (simp add: put_labels_simps)
next
  case (Cons x ls)
  from putLabelInMBB_before [of MBB s x] obtain l1 where
    l1: "before (putLabelInMBB MBB s x) = l1 @ before s" "\<forall>m \<in> set l1. \<not> snd m" by blast
  from Cons.IH [of "putLabelInMBB MBB s x"] obtain l2 where
    l2: "before (put_labels MBB ls (putLabelInMBB MBB s x)) = l2 @ before (putLabelInMBB MBB s x)"
      "\<forall>m \<in> set l2. \<not> snd m" by blast
  show ?case
    by (rule exI [of _ "l2 @ l1"]) (use l1 l2 in \<open>auto simp: put_labels_simps\<close>)
qed


lemma put_labels_erase:
  "set (erase_deleted s) \<subseteq> set (erase_deleted (put_labels MBB ls s))"
proof (induction ls arbitrary: s)
  case Nil
  show ?case by (simp add: put_labels_simps)
next
  case (Cons x ls)
  from putLabelInMBB_erase [of s MBB x] Cons.IH [of "putLabelInMBB MBB s x"]
  show ?case by (auto simp: put_labels_simps)
qed

lemmas inserted_at_prevMI_alt = inserted_at_prevMI_def

lemma flush_Inr:
  assumes "flush env cfg param MBB nx s = Inr s'"
  obtains (nothing) "\<not> valid (chain0 s)" "s' = s"
  | (inserted) pm r where "valid (chain0 s)" "prevMI s = Some pm"
      "insertROPChain env cfg param (getName (MF s)) MBB (Successors (basicBlocks (MF s) ! MBB)) nx
         (BA s) (engine s) (temps s) (chain0 s) (chainID s) = Inr r"
      "s' = (inserted_at_prevMI MBB r s)\<lparr>chain0 := clear\<rparr>"
  using assms by (auto simp: flush_def split: if_splits option.splits sum.splits)

lemma flush_fields:
  assumes "flush env cfg param MBB nx s = Inr s'"
  shows "processed s' = processed s" "obfuscated s' = obfuscated s"
    "instr_stat s' = instr_stat s" "prevMI s' = prevMI s" "behind s' = behind s"
    "\<not> valid (chain0 s')"
    "length (basicBlocks (MF s')) = length (basicBlocks (MF s))"
    "getName (MF s') = getName (MF s)"
  using assms
  by (cases rule: flush_Inr;
      simp add: inserted_at_prevMI_alt put_labels_fields put_labels_behind valid_def clear_def)+

lemma flush_before:
  assumes "flush env cfg param MBB nx s = Inr s'"
  shows "\<not> valid (chain0 s) \<Longrightarrow> s' = s"
    and "valid (chain0 s) \<Longrightarrow> chainID s' = chainID s + 1
      \<and> (\<exists>r labels. insertROPChain env cfg param (getName (MF s)) MBB
                (Successors (basicBlocks (MF s) ! MBB)) nx
                (BA s) (engine s) (temps s) (chain0 s) (chainID s) = Inr r
            \<and> before s' = labels @ before s @ map (\<lambda>a. (Lowered a, False)) (code r)
            \<and> (\<forall>m \<in> set labels. \<not> snd m))"
proof -
  show "\<not> valid (chain0 s) \<Longrightarrow> s' = s"
    using assms by (cases rule: flush_Inr) simp_all
  assume v: "valid (chain0 s)"
  from assms show "chainID s' = chainID s + 1
      \<and> (\<exists>r labels. insertROPChain env cfg param (getName (MF s)) MBB
                (Successors (basicBlocks (MF s) ! MBB)) nx
                (BA s) (engine s) (temps s) (chain0 s) (chainID s) = Inr r
            \<and> before s' = labels @ before s @ map (\<lambda>a. (Lowered a, False)) (code r)
            \<and> (\<forall>m \<in> set labels. \<not> snd m))"
  proof (cases rule: flush_Inr)
    case nothing
    with v show ?thesis by simp
  next
    case (inserted pm r)
    let ?s1 = "s\<lparr>before := before s @ map (\<lambda>a. (Lowered a, False)) (code r),
          MF := (MF s)\<lparr>basicBlocks :=
                 (basicBlocks (MF s))[MBB :=
                    (basicBlocks (MF s) ! MBB)\<lparr>Successors := successors (lowered r)\<rparr>]\<rparr>,
          BA := symbols (lowered r),
          engine := tick (lowered r),
          temps := nextTemp (lowered r),
          chainID := chainID s + 1\<rparr>"
    from put_labels_before [of MBB "blockLabels (lowered r)" ?s1] obtain labels where
      "before (put_labels MBB (blockLabels (lowered r)) ?s1) = labels @ before ?s1"
      "\<forall>m \<in> set labels. \<not> snd m" by blast
    with inserted show ?thesis
      by (auto simp: inserted_at_prevMI_alt put_labels_fields)
  qed
qed

lemma flush_erase:
  assumes "flush env cfg param MBB nx s = Inr s'"
  shows "set (erase_deleted s) \<subseteq> set (erase_deleted s')"
  using assms
proof (cases rule: flush_Inr)
  case nothing
  then show ?thesis by simp
next
  case (inserted pm r)
  let ?s1 = "s\<lparr>before := before s @ map (\<lambda>a. (Lowered a, False)) (code r),
          MF := (MF s)\<lparr>basicBlocks :=
                 (basicBlocks (MF s))[MBB :=
                    (basicBlocks (MF s) ! MBB)\<lparr>Successors := successors (lowered r)\<rparr>]\<rparr>,
          BA := symbols (lowered r),
          engine := tick (lowered r),
          temps := nextTemp (lowered r),
          chainID := chainID s + 1\<rparr>"
  have "set (erase_deleted s) \<subseteq> set (erase_deleted ?s1)"
    by (auto simp: erase_deleted_def)
  also have "\<dots> \<subseteq> set (erase_deleted (put_labels MBB (blockLabels (lowered r)) ?s1))"
    by (rule put_labels_erase)
  finally show ?thesis
    using inserted by (simp add: inserted_at_prevMI_alt erase_deleted_def)
qed


section \<open>The driver: one instruction\<close>

lemma block_view_processed [simp]:
  "block_view (s\<lparr>processed := p\<rparr>) = block_view s"
  by (simp add: block_view_def)

lemma obfuscate_instr_Inr:
  assumes "obfuscate_instr env host cfg param MBB MBBScratchRegs i MI rest s = Inr s'"
  obtains (debug) "isDebugInstr MI" "s' = s\<lparr>behind := behind s @ [MI]\<rparr>"
  | (failed) status0 result e outcome s3 where
      "\<not> isDebugInstr MI"
      "ropify host MI (MBBScratchRegs i)
         (\<not> isSafeToClobberEFLAGS host (block_view s @ MI # rest) (length (block_view s)))
         (BA s) (engine s) = (status0, result, e)"
      "outcome = (if (hasConditionalJump result \<or> hasUnconditionalJump result)
                     \<and> flagSave result = SAVE_AFTER_EXEC
                  then ERR_UNSUPPORTED else status0)"
      "outcome \<noteq> OK"
      "flush env cfg param MBB True
         (s\<lparr>processed := processed s + 1, engine := e,
            instr_stat := count_status (instr_stat s) (getOpcode host MI) outcome\<rparr>) = Inr s3"
      "s' = s3\<lparr>behind := behind s3 @ [MI]\<rparr>"
  | (merged) status0 result e where
      "\<not> isDebugInstr MI"
      "ropify host MI (MBBScratchRegs i)
         (\<not> isSafeToClobberEFLAGS host (block_view s @ MI # rest) (length (block_view s)))
         (BA s) (engine s) = (status0, result, e)"
      "canMerge (chain0 s) result"
      "s' = (set_prevMI MI
               (s\<lparr>processed := processed s + 1, engine := e,
                  instr_stat := count_status (instr_stat s) (getOpcode host MI) OK,
                  chain0 := merge (chain0 s) result\<rparr>))\<lparr>obfuscated := obfuscated s + 1\<rparr>"
  | (replaced) status0 result e s3 where
      "\<not> isDebugInstr MI"
      "ropify host MI (MBBScratchRegs i)
         (\<not> isSafeToClobberEFLAGS host (block_view s @ MI # rest) (length (block_view s)))
         (BA s) (engine s) = (status0, result, e)"
      "\<not> canMerge (chain0 s) result"
      "flush env cfg param MBB True
         (s\<lparr>processed := processed s + 1, engine := e,
            instr_stat := count_status (instr_stat s) (getOpcode host MI) OK\<rparr>) = Inr s3"
      "s' = (set_prevMI MI (s3\<lparr>chain0 := result\<rparr>))\<lparr>obfuscated := obfuscated s3 + 1\<rparr>"
proof (cases "isDebugInstr MI")
  case True
  with assms show thesis
    by (intro debug) (simp_all add: obfuscate_instr_def)
next
  case False
  obtain status0 result e where rop: "ropify host MI (MBBScratchRegs i)
         (\<not> isSafeToClobberEFLAGS host (block_view s @ MI # rest) (length (block_view s)))
         (BA s) (engine s) = (status0, result, e)"
    by (cases "ropify host MI (MBBScratchRegs i)
         (\<not> isSafeToClobberEFLAGS host (block_view s @ MI # rest) (length (block_view s)))
         (BA s) (engine s)") auto
  define outcome where "outcome = (if (hasConditionalJump result \<or> hasUnconditionalJump result)
                     \<and> flagSave result = SAVE_AFTER_EXEC
                  then ERR_UNSUPPORTED else status0)"
  let ?s2 = "s\<lparr>processed := processed s + 1, engine := e,
            instr_stat := count_status (instr_stat s) (getOpcode host MI) outcome\<rparr>"
  have unfold: "obfuscate_instr env host cfg param MBB MBBScratchRegs i MI rest s =
     (if outcome \<noteq> OK
      then (case flush env cfg param MBB True ?s2 of
              Inl err \<Rightarrow> Inl err
            | Inr s3 \<Rightarrow> Inr (s3\<lparr>behind := behind s3 @ [MI]\<rparr>))
      else (case (if canMerge (chain0 ?s2) result
                  then Inr (?s2\<lparr>chain0 := merge (chain0 ?s2) result\<rparr>)
                  else (case flush env cfg param MBB True ?s2 of
                          Inl err \<Rightarrow> Inl err
                        | Inr s3 \<Rightarrow> Inr (s3\<lparr>chain0 := result\<rparr>))) of
              Inl err \<Rightarrow> Inl err
            | Inr s4 \<Rightarrow> Inr ((set_prevMI MI s4)\<lparr>obfuscated := obfuscated s4 + 1\<rparr>)))"
    using False rop
    by (simp add: obfuscate_instr_def Let_def outcome_def ROPFUSCATOR_INSTRUCTION_STAT_def)
  show thesis
  proof (cases "outcome = OK")
    case bad: False
    with assms unfold obtain s3 where
      "flush env cfg param MBB True ?s2 = Inr s3" "s' = s3\<lparr>behind := behind s3 @ [MI]\<rparr>"
      by (auto split: sum.splits)
    with False rop outcome_def bad show thesis by (intro failed)
  next
    case ok: True
    show thesis
    proof (cases "canMerge (chain0 s) result")
      case True
      with assms unfold ok
      have "s' = (set_prevMI MI (?s2\<lparr>chain0 := merge (chain0 s) result\<rparr>))\<lparr>obfuscated := obfuscated s + 1\<rparr>"
        by (simp add: set_prevMI_def)
      with False rop True ok show thesis by (intro merged) simp_all
    next
      case no: False
      with assms unfold ok obtain s3 where
        "flush env cfg param MBB True ?s2 = Inr s3"
        "s' = (set_prevMI MI (s3\<lparr>chain0 := result\<rparr>))\<lparr>obfuscated := obfuscated s3 + 1\<rparr>"
        by (auto split: sum.splits)
      with False rop no ok show thesis by (intro replaced) simp_all
    qed
  qed
qed

lemma erase_deleted_set_prevMI:
  "set (erase_deleted (set_prevMI MI s)) = set (erase_deleted s)"
  by (auto simp: erase_deleted_def set_prevMI_def split: option.splits)

lemma erase_deleted_updates [simp]:
  "erase_deleted (s\<lparr>processed := p\<rparr>) = erase_deleted s"
  "erase_deleted (s\<lparr>obfuscated := ob\<rparr>) = erase_deleted s"
  "erase_deleted (s\<lparr>engine := e\<rparr>) = erase_deleted s"
  "erase_deleted (s\<lparr>instr_stat := st\<rparr>) = erase_deleted s"
  "erase_deleted (s\<lparr>chain0 := c\<rparr>) = erase_deleted s"
  by (simp_all add: erase_deleted_def)

lemma obfuscate_instr_erase:
  assumes "obfuscate_instr env host cfg param MBB MBBScratchRegs i MI rest s = Inr s'"
  shows "set (erase_deleted s) \<subseteq> set (erase_deleted s')"
  using assms
proof (cases rule: obfuscate_instr_Inr)
  case debug
  then show ?thesis by (auto simp: erase_deleted_def)
next
  case (failed status0 result e outcome s3)
  from flush_erase [OF failed(5)] failed(6) show ?thesis
    by (auto simp: erase_deleted_def)
next
  case (merged status0 result e)
  then show ?thesis
    by (simp add: erase_deleted_set_prevMI)
next
  case (replaced status0 result e s3)
  from flush_erase [OF replaced(4)] replaced(5) show ?thesis
    by (simp add: erase_deleted_set_prevMI)
qed

lemma obfuscate_instrs_erase:
  "obfuscate_instrs env host cfg param MBB MBBScratchRegs i todo s = Inr s' \<Longrightarrow>
   set (erase_deleted s) \<subseteq> set (erase_deleted s')"
proof (induction todo arbitrary: i s)
  case Nil
  then show ?case by simp
next
  case (Cons MI rest)
  from Cons.prems obtain s1 where
    one: "obfuscate_instr env host cfg param MBB MBBScratchRegs i MI rest s = Inr s1" and
    more: "obfuscate_instrs env host cfg param MBB MBBScratchRegs (Suc i) rest s1 = Inr s'"
    by (auto split: sum.splits)
  from obfuscate_instr_erase [OF one] Cons.IH [OF more] show ?case by blast
qed



text \<open>
  C2. Let \<open>MI\<close> not be a debug instruction, and let the ROP engine, called with
  \<^verbatim>\<open>shouldFlagSaved = !isSafeToClobberEFLAGS(MBB, it)\<close>, return with whatever status
  a chain that has a jump flag set and the flag mode \<^verbatim>\<open>SAVE_AFTER_EXEC\<close>. Then the
  iteration is the one of an error with status \<^verbatim>\<open>ERR_UNSUPPORTED\<close>: it counts the
  instruction as processed, counts the status \<^verbatim>\<open>ERR_UNSUPPORTED\<close> for its opcode,
  flushes the pending chain and leaves \<open>MI\<close> in the block. When it returns: the
  counter of the opcode for \<^verbatim>\<open>ERR_UNSUPPORTED\<close> is one higher; nothing is counted as
  obfuscated; \<^verbatim>\<open>prevMI\<close> is what it was; \<open>MI\<close> is not in the list of instructions to
  delete, and it is still in the block when the loop over the rest of the block
  returns; no chain is pending; if one was, \<^verbatim>\<open>insertROPChain\<close> has returned for it
  with \<^verbatim>\<open>prevMI\<close> as the anchor (which has a next node), its code stands right
  before \<^verbatim>\<open>prevMI\<close>, and the chain number has moved on; if none was, the block is
  as before. The loop goes on with the next instruction.
\<close>

theorem jump_with_SAVE_AFTER_EXEC_is_unsupported:
  "\<not> isDebugInstr MI
   \<and> ropify host MI (MBBScratchRegs i)
        (\<not> isSafeToClobberEFLAGS host (block_view s @ MI # rest) (length (block_view s)))
        (BA s) (engine s) = (status0, result, e)
   \<and> (hasConditionalJump result \<or> hasUnconditionalJump result)
   \<and> flagSave result = SAVE_AFTER_EXEC
   \<longrightarrow>
     obfuscate_instr env host cfg param MBB MBBScratchRegs i MI rest s
       = (case flush env cfg param MBB True
                 (s\<lparr>processed := processed s + 1, engine := e,
                    instr_stat := count_status (instr_stat s) (getOpcode host MI) ERR_UNSUPPORTED\<rparr>) of
            Inl err \<Rightarrow> Inl err
          | Inr s3 \<Rightarrow> Inr (s3\<lparr>behind := behind s3 @ [MI]\<rparr>))
   \<and> (obfuscate_instr env host cfg param MBB MBBScratchRegs i MI rest s = Inr s' \<longrightarrow>
        instr_stat s' = count_status (instr_stat s) (getOpcode host MI) ERR_UNSUPPORTED
        \<and> instr_stat s' (getOpcode host MI) ERR_UNSUPPORTED
            = instr_stat s (getOpcode host MI) ERR_UNSUPPORTED + 1
        \<and> processed s' = processed s + 1
        \<and> obfuscated s' = obfuscated s
        \<and> prevMI s' = prevMI s
        \<and> behind s' = behind s @ [MI]
        \<and> MI \<in> set (erase_deleted s')
        \<and> \<not> valid (chain0 s')
        \<and> (valid (chain0 s) \<longrightarrow>
              chainID s' = chainID s + 1
              \<and> (\<exists>pm r labels. prevMI s = Some pm
                    \<and> insertROPChain env cfg param (getName (MF s)) MBB
                          (Successors (basicBlocks (MF s) ! MBB)) True
                          (BA s) e (temps s) (chain0 s) (chainID s) = Inr r
                    \<and> before s' = labels @ before s @ map (\<lambda>a. (Lowered a, False)) (code r)))
        \<and> (\<not> valid (chain0 s) \<longrightarrow>
              before s' = before s \<and> MF s' = MF s \<and> chainID s' = chainID s)
        \<and> obfuscate_instrs env host cfg param MBB MBBScratchRegs i (MI # rest) s
            = obfuscate_instrs env host cfg param MBB MBBScratchRegs (Suc i) rest s'
        \<and> (obfuscate_instrs env host cfg param MBB MBBScratchRegs (Suc i) rest s' = Inr s''
              \<longrightarrow> MI \<in> set (erase_deleted s'')))"
proof (intro impI, elim conjE)
  assume nd: "\<not> isDebugInstr MI"
    and rop: "ropify host MI (MBBScratchRegs i)
        (\<not> isSafeToClobberEFLAGS host (block_view s @ MI # rest) (length (block_view s)))
        (BA s) (engine s) = (status0, result, e)"
    and jump: "hasConditionalJump result \<or> hasUnconditionalJump result"
    and sae: "flagSave result = SAVE_AFTER_EXEC"
  let ?s2 = "s\<lparr>processed := processed s + 1, engine := e,
                instr_stat := count_status (instr_stat s) (getOpcode host MI) ERR_UNSUPPORTED\<rparr>"
  have step: "obfuscate_instr env host cfg param MBB MBBScratchRegs i MI rest s
       = (case flush env cfg param MBB True ?s2 of
            Inl err \<Rightarrow> Inl err
          | Inr s3 \<Rightarrow> Inr (s3\<lparr>behind := behind s3 @ [MI]\<rparr>))"
    using nd rop jump sae
    by (simp add: obfuscate_instr_def Let_def ROPFUSCATOR_INSTRUCTION_STAT_def)
  have after: "obfuscate_instr env host cfg param MBB MBBScratchRegs i MI rest s = Inr s' \<longrightarrow>
        instr_stat s' = count_status (instr_stat s) (getOpcode host MI) ERR_UNSUPPORTED
        \<and> instr_stat s' (getOpcode host MI) ERR_UNSUPPORTED
            = instr_stat s (getOpcode host MI) ERR_UNSUPPORTED + 1
        \<and> processed s' = processed s + 1
        \<and> obfuscated s' = obfuscated s
        \<and> prevMI s' = prevMI s
        \<and> behind s' = behind s @ [MI]
        \<and> MI \<in> set (erase_deleted s')
        \<and> \<not> valid (chain0 s')
        \<and> (valid (chain0 s) \<longrightarrow>
              chainID s' = chainID s + 1
              \<and> (\<exists>pm r labels. prevMI s = Some pm
                    \<and> insertROPChain env cfg param (getName (MF s)) MBB
                          (Successors (basicBlocks (MF s) ! MBB)) True
                          (BA s) e (temps s) (chain0 s) (chainID s) = Inr r
                    \<and> before s' = labels @ before s @ map (\<lambda>a. (Lowered a, False)) (code r)))
        \<and> (\<not> valid (chain0 s) \<longrightarrow>
              before s' = before s \<and> MF s' = MF s \<and> chainID s' = chainID s)
        \<and> obfuscate_instrs env host cfg param MBB MBBScratchRegs i (MI # rest) s
            = obfuscate_instrs env host cfg param MBB MBBScratchRegs (Suc i) rest s'
        \<and> (obfuscate_instrs env host cfg param MBB MBBScratchRegs (Suc i) rest s' = Inr s''
              \<longrightarrow> MI \<in> set (erase_deleted s''))"
    (is "_ \<longrightarrow> ?after")
  proof
    assume res: "obfuscate_instr env host cfg param MBB MBBScratchRegs i MI rest s = Inr s'"
    from res step obtain s3 where
      fl: "flush env cfg param MBB True ?s2 = Inr s3" and
      s': "s' = s3\<lparr>behind := behind s3 @ [MI]\<rparr>"
      by (auto split: sum.splits)
    note ff = flush_fields [OF fl]
    have a1: "instr_stat s' = count_status (instr_stat s) (getOpcode host MI) ERR_UNSUPPORTED"
      using ff(3) s' by simp
    have a2: "instr_stat s' (getOpcode host MI) ERR_UNSUPPORTED
            = instr_stat s (getOpcode host MI) ERR_UNSUPPORTED + 1"
      unfolding a1 by (simp add: count_status_def)
    have a3: "processed s' = processed s + 1" using ff(1) s' by simp
    have a4: "obfuscated s' = obfuscated s" using ff(2) s' by simp
    have a5: "prevMI s' = prevMI s" using ff(4) s' by simp
    have a6: "behind s' = behind s @ [MI]" using ff(5) s' by simp
    have a7: "MI \<in> set (erase_deleted s')" using a6 by (simp add: erase_deleted_def)
    have a8: "\<not> valid (chain0 s')" using ff(6) s' by simp
    have a9: "valid (chain0 s) \<longrightarrow> chainID s' = chainID s + 1
              \<and> (\<exists>pm r labels. prevMI s = Some pm
                    \<and> insertROPChain env cfg param (getName (MF s)) MBB
                          (Successors (basicBlocks (MF s) ! MBB)) True
                          (BA s) e (temps s) (chain0 s) (chainID s) = Inr r
                    \<and> before s' = labels @ before s @ map (\<lambda>a. (Lowered a, False)) (code r))"
    proof
      assume v: "valid (chain0 s)"
      from v have v2: "valid (chain0 ?s2)" by simp
      from flush_before(2) [OF fl v2] obtain r labels where
        c: "chainID s3 = chainID s + 1" and
        ins: "insertROPChain env cfg param (getName (MF s)) MBB
                (Successors (basicBlocks (MF s) ! MBB)) True
                (BA s) e (temps s) (chain0 s) (chainID s) = Inr r" and
        b: "before s3 = labels @ before s @ map (\<lambda>a. (Lowered a, False)) (code r)"
        by auto
      from fl v2 obtain pm where "prevMI s = Some pm"
        by (cases rule: flush_Inr) auto
      with c ins b s' show "chainID s' = chainID s + 1
              \<and> (\<exists>pm r labels. prevMI s = Some pm
                    \<and> insertROPChain env cfg param (getName (MF s)) MBB
                          (Successors (basicBlocks (MF s) ! MBB)) True
                          (BA s) e (temps s) (chain0 s) (chainID s) = Inr r
                    \<and> before s' = labels @ before s @ map (\<lambda>a. (Lowered a, False)) (code r))"
        by auto
    qed
    have a10: "\<not> valid (chain0 s) \<longrightarrow>
        before s' = before s \<and> MF s' = MF s \<and> chainID s' = chainID s"
    proof
      assume nv: "\<not> valid (chain0 s)"
      then have "\<not> valid (chain0 ?s2)" by simp
      from flush_before(1) [OF fl this] s'
      show "before s' = before s \<and> MF s' = MF s \<and> chainID s' = chainID s" by simp
    qed
    have a11: "obfuscate_instrs env host cfg param MBB MBBScratchRegs i (MI # rest) s
            = obfuscate_instrs env host cfg param MBB MBBScratchRegs (Suc i) rest s'"
      using res by simp
    have a12: "obfuscate_instrs env host cfg param MBB MBBScratchRegs (Suc i) rest s' = Inr s''
        \<longrightarrow> MI \<in> set (erase_deleted s'')"
    proof
      assume "obfuscate_instrs env host cfg param MBB MBBScratchRegs (Suc i) rest s' = Inr s''"
      from obfuscate_instrs_erase [OF this] a7 show "MI \<in> set (erase_deleted s'')"
        by (rule subsetD)
    qed
    from a1 a2 a3 a4 a5 a6 a7 a8 a9 a10 a11 a12 show ?after
      by (intro conjI)
  qed
  from step after show "obfuscate_instr env host cfg param MBB MBBScratchRegs i MI rest s
       = (case flush env cfg param MBB True ?s2 of
            Inl err \<Rightarrow> Inl err
          | Inr s3 \<Rightarrow> Inr (s3\<lparr>behind := behind s3 @ [MI]\<rparr>))
   \<and> (obfuscate_instr env host cfg param MBB MBBScratchRegs i MI rest s = Inr s' \<longrightarrow>
        instr_stat s' = count_status (instr_stat s) (getOpcode host MI) ERR_UNSUPPORTED
        \<and> instr_stat s' (getOpcode host MI) ERR_UNSUPPORTED
            = instr_stat s (getOpcode host MI) ERR_UNSUPPORTED + 1
        \<and> processed s' = processed s + 1
        \<and> obfuscated s' = obfuscated s
        \<and> prevMI s' = prevMI s
        \<and> behind s' = behind s @ [MI]
        \<and> MI \<in> set (erase_deleted s')
        \<and> \<not> valid (chain0 s')
        \<and> (valid (chain0 s) \<longrightarrow>
              chainID s' = chainID s + 1
              \<and> (\<exists>pm r labels. prevMI s = Some pm
                    \<and> insertROPChain env cfg param (getName (MF s)) MBB
                          (Successors (basicBlocks (MF s) ! MBB)) True
                          (BA s) e (temps s) (chain0 s) (chainID s) = Inr r
                    \<and> before s' = labels @ before s @ map (\<lambda>a. (Lowered a, False)) (code r)))
        \<and> (\<not> valid (chain0 s) \<longrightarrow>
              before s' = before s \<and> MF s' = MF s \<and> chainID s' = chainID s)
        \<and> obfuscate_instrs env host cfg param MBB MBBScratchRegs i (MI # rest) s
            = obfuscate_instrs env host cfg param MBB MBBScratchRegs (Suc i) rest s'
        \<and> (obfuscate_instrs env host cfg param MBB MBBScratchRegs (Suc i) rest s' = Inr s''
              \<longrightarrow> MI \<in> set (erase_deleted s'')))"
    by (intro conjI)
qed


theorem jump_with_SAVE_AFTER_EXEC_is_unsupported_witness:
  "\<not> isl (obfuscate_instr example_env example_host example_cfg example_param 0 (\<lambda>i. []) 1
            (X86Instr 2 False 0) [] example_pending)
   \<and> instr_stat (projr (obfuscate_instr example_env example_host example_cfg example_param 0
         (\<lambda>i. []) 1 (X86Instr 2 False 0) [] example_pending)) 2 ERR_UNSUPPORTED = 1
   \<and> processed (projr (obfuscate_instr example_env example_host example_cfg example_param 0
         (\<lambda>i. []) 1 (X86Instr 2 False 0) [] example_pending)) = 2
   \<and> obfuscated (projr (obfuscate_instr example_env example_host example_cfg example_param 0
         (\<lambda>i. []) 1 (X86Instr 2 False 0) [] example_pending)) = 1
   \<and> prevMI (projr (obfuscate_instr example_env example_host example_cfg example_param 0
         (\<lambda>i. []) 1 (X86Instr 2 False 0) [] example_pending)) = Some (X86Instr 1 False 0)
   \<and> behind (projr (obfuscate_instr example_env example_host example_cfg example_param 0
         (\<lambda>i. []) 1 (X86Instr 2 False 0) [] example_pending)) = [X86Instr 2 False 0]
   \<and> X86Instr 2 False 0
       \<in> set (erase_deleted (projr (obfuscate_instr example_env example_host example_cfg
            example_param 0 (\<lambda>i. []) 1 (X86Instr 2 False 0) [] example_pending)))
   \<and> \<not> valid (chain0 (projr (obfuscate_instr example_env example_host example_cfg example_param 0
         (\<lambda>i. []) 1 (X86Instr 2 False 0) [] example_pending)))
   \<and> chainID (projr (obfuscate_instr example_env example_host example_cfg example_param 0
         (\<lambda>i. []) 1 (X86Instr 2 False 0) [] example_pending)) = 1"
proof -
  let ?MI = "X86Instr 2 False 0"
  let ?jump = "(example_jump_chain [JMP_BLOCK 1])\<lparr>flagSave := SAVE_AFTER_EXEC\<rparr>"
  define s' where "s' = projr (obfuscate_instr example_env example_host example_cfg example_param 0
         (\<lambda>i. []) 1 ?MI [] example_pending)"
  have ok: "\<not> isl (obfuscate_instr example_env example_host example_cfg example_param 0
         (\<lambda>i. []) 1 ?MI [] example_pending)"
    by code_simp
  then have run: "obfuscate_instr example_env example_host example_cfg example_param 0
         (\<lambda>i. []) 1 ?MI [] example_pending = Inr s'"
    unfolding s'_def by simp
  have hyp: "\<not> isDebugInstr ?MI
   \<and> ropify example_host ?MI ((\<lambda>i. []) 1)
        (\<not> isSafeToClobberEFLAGS example_host (block_view example_pending @ ?MI # [])
              (length (block_view example_pending)))
        (BA example_pending) (engine example_pending) = (OK, ?jump, 0)
   \<and> (hasConditionalJump ?jump \<or> hasUnconditionalJump ?jump)
   \<and> flagSave ?jump = SAVE_AFTER_EXEC"
    by (simp add: example_host_def example_pending_def example_driver_def example_jump_chain_def)
  note T = jump_with_SAVE_AFTER_EXEC_is_unsupported [where MI = ?MI and host = example_host
      and MBBScratchRegs = "\<lambda>i. []" and i = 1 and s = example_pending and rest = "[]"
      and ?status0.0 = OK and result = ?jump and e = 0 and env = example_env
      and cfg = example_cfg and param = example_param and MBB = 0 and s' = s' and s'' = s',
      THEN mp, OF hyp, THEN conjunct2, THEN mp, OF run]
  have before: "instr_stat example_pending 2 ERR_UNSUPPORTED = 0"
    "processed example_pending = 1" "obfuscated example_pending = 1"
    "prevMI example_pending = Some (X86Instr 1 False 0)" "behind example_pending = []"
    "valid (chain0 example_pending)" "chainID example_pending = 0"
    by (simp_all add: example_pending_def example_driver_def count_status_def valid_def
        example_imm_chain_def)
  have opcode: "getOpcode example_host ?MI = 2" by simp
  from T have one: "instr_stat s' 2 ERR_UNSUPPORTED = 1"
    unfolding opcode before by (elim conjE) simp
  from T have two: "processed s' = 2"
    unfolding before by (elim conjE) simp
  from T have three: "obfuscated s' = 1"
    unfolding before by (elim conjE) simp
  from T have four: "prevMI s' = Some (X86Instr 1 False 0)"
    unfolding before by (elim conjE)
  from T have five: "behind s' = [?MI]"
    unfolding before by (elim conjE) simp
  from T have six: "?MI \<in> set (erase_deleted s')"
    by (elim conjE)
  from T have seven: "\<not> valid (chain0 s')"
    by (elim conjE)
  from T have "valid (chain0 example_pending) \<longrightarrow> chainID s' = chainID example_pending + 1
      \<and> (\<exists>pm r labels. prevMI example_pending = Some pm
            \<and> insertROPChain example_env example_cfg example_param (getName (MF example_pending)) 0
                  (Successors (basicBlocks (MF example_pending) ! 0)) True
                  (BA example_pending) 0 (temps example_pending) (chain0 example_pending)
                  (chainID example_pending) = Inr r
            \<and> before s' = labels @ before example_pending @ map (\<lambda>a. (Lowered a, False)) (code r))"
    by (elim conjE)
  then have eight: "chainID s' = 1"
    using before(6,7) by simp
  from ok one two three four five six seven eight show ?thesis
    unfolding s'_def by (intro conjI)
qed
section \<open>The driver: blocks and the statistics\<close>












lemma getParameter_globalConfig [simp]:
  "getParameter (c\<lparr>globalConfig := g\<rparr>) funcname = getParameter c funcname"
  by (simp add: getParameter_def split: option.splits)





end
